theory Spec2Isabelle
  imports Complex_Main
begin

section \<open>Data model\<close>

text \<open>
  The conversion route \<^verbatim>\<open>src/app/api/convert/route.ts\<close> carries three variants of the
  route one after the other (lines 1-811, 812-1848 and 1849-4271).  A function that
  exists in more than one variant keeps its name for the first variant that is modelled
  and gets the suffix \<^verbatim>\<open>_v3\<close> for the third; each definition names the lines it
  embeds.

  JavaScript numbers are modelled as mathematical reals, and the special values of IEEE
  doubles (NaN, the infinities, the sign of zero) are outside the model.  Arithmetic is
  exact everywhere but in the \<^verbatim>\<open>scaleContour\<close> of the third variant, whose translation
  step is sensitive to rounding: there every arithmetic result is rounded to the nearest
  double, with \<open>binary64\<close> below.  Pixel
  coordinates are integers, loop counters and sizes naturals.  A point \<^verbatim>\<open>[x, y]\<close> is a
  pair, a contour (\<^verbatim>\<open>number[][]\<close>) a list of points.
\<close>

type_synonym point = "real \<times> real"
type_synonym polygon = "point list"

datatype dimensionControl = Width | Height

text \<open>
  \<^verbatim>\<open>ConversionOptions\<close>, after the defaults of \<^verbatim>\<open>convertRasterToDxf\<close> have been applied
  (the destructuring assignment at the head of that function).  The fields carry the
  prefix \<^verbatim>\<open>opt_\<close>, because \<^verbatim>\<open>width\<close> and \<^verbatim>\<open>height\<close> also name the image size throughout.
\<close>

record conversionOptions =
  opt_threshold :: nat
  opt_simplify :: real
  opt_width :: real
  opt_height :: real
  opt_dimensionControl :: dimensionControl

section \<open>Boundary tracing\<close>

subsection \<open>The pixel grid (findContours, lines 130-140)\<close>

text \<open>
  \<^verbatim>\<open>pixels\<close> is an array of rows.  \<^verbatim>\<open>findContours\<close> builds it from the thresholded
  image buffer with \<^verbatim>\<open>height\<close> rows of \<^verbatim>\<open>width\<close> cells, each 0 or 1; a read past the
  end of the buffer gives \<^verbatim>\<open>undefined\<close>, and \<^verbatim>\<open>undefined < threshold\<close> is false.
\<close>

type_synonym grid = "nat list list"

definition toPixels :: "nat list \<Rightarrow> nat \<Rightarrow> nat \<Rightarrow> nat \<Rightarrow> grid" where
  "toPixels imageData width height thresh =
     map (\<lambda>y.
        map (\<lambda>x.
           let idx = y * width + x
           in if idx < length imageData
              then (if imageData ! idx < thresh then 1 else 0)
              else 0)
          [0..<width])
       [0..<height]"

definition wf_grid :: "grid \<Rightarrow> nat \<Rightarrow> nat \<Rightarrow> bool" where
  "wf_grid pixels width height =
     (length pixels = height \<and> list_all (\<lambda>row. length row = width) pixels)"

text \<open>
  \<^verbatim>\<open>pixels[y][x]\<close>.  On a grid of \<^verbatim>\<open>height\<close> rows of \<^verbatim>\<open>width\<close> cells every read of the
  tracers is in range, because each is guarded by \<^verbatim>\<open>0 <= x < width\<close> and
  \<^verbatim>\<open>0 <= y < height\<close>.  Outside the grid the read has no value (\<open>None\<close>): JavaScript
  gives \<^verbatim>\<open>undefined\<close> for a cell past the end of a row, and raises a TypeError for a
  row that does not exist; the theorems about the tracers therefore assume \<open>wf_grid\<close>.
\<close>

definition pixel :: "grid \<Rightarrow> int \<Rightarrow> int \<Rightarrow> nat option" where
  "pixel pixels x y =
     (if 0 \<le> y \<and> nat y < length pixels \<and> 0 \<le> x \<and> nat x < length (pixels ! nat y)
      then Some (pixels ! nat y ! nat x) else None)"

subsection \<open>findSingleOuterBoundary (lines 157-262)\<close>

text \<open>
  The start pixel: the two nested loops of lines 159-167 stop at the first cell equal to
  1 in row-major order.  \<open>None\<close> stands for \<^verbatim>\<open>startX === -1\<close>.
\<close>

fun scanRow :: "grid \<Rightarrow> nat \<Rightarrow> nat list \<Rightarrow> (int \<times> int) option" where
  "scanRow pixels y [] = None"
| "scanRow pixels y (x # xs) =
     (if pixel pixels (int x) (int y) = Some 1 then Some (int x, int y)
      else scanRow pixels y xs)"

fun scanRows :: "grid \<Rightarrow> nat \<Rightarrow> nat list \<Rightarrow> (int \<times> int) option" where
  "scanRows pixels width [] = None"
| "scanRows pixels width (y # ys) =
     (case scanRow pixels y [0..<width] of
        Some start \<Rightarrow> Some start
      | None \<Rightarrow> scanRows pixels width ys)"

definition findStart :: "grid \<Rightarrow> nat \<Rightarrow> nat \<Rightarrow> (int \<times> int) option" where
  "findStart pixels width height = scanRows pixels width [0..<height]"

text \<open>The eight directions (lines 183-192): East, NE, North, NW, West, SW, South, SE.\<close>

definition directions :: "(int \<times> int) list" where
  "directions = [(1, 0), (1, -1), (0, -1), (-1, -1), (-1, 0), (-1, 1), (0, 1), (1, 1)]"

definition inImage :: "nat \<Rightarrow> nat \<Rightarrow> int \<Rightarrow> int \<Rightarrow> bool" where
  "inImage width height x y = (0 \<le> x \<and> x < int width \<and> 0 \<le> y \<and> y < int height)"

text \<open>
  Lines 213-229: a candidate is on the boundary when a cell of its 3 x 3 neighbourhood
  (the candidate included) is 0 or lies outside the image.
\<close>

definition hasWhiteNeighbor :: "grid \<Rightarrow> nat \<Rightarrow> nat \<Rightarrow> int \<Rightarrow> int \<Rightarrow> bool" where
  "hasWhiteNeighbor pixels width height testX testY =
     list_ex (\<lambda>checkY.
        list_ex (\<lambda>checkX.
           if inImage width height checkX checkY then pixel pixels checkX checkY = Some 0
           else True)
          [testX - 1, testX, testX + 1])
       [testY - 1, testY, testY + 1]"

text \<open>
  The variables of the trace loop.  \<^verbatim>\<open>visited\<close> is a \<^verbatim>\<open>Set\<close> of the keys \<^verbatim>\<open>"x,y"\<close>, one per
  pixel, modelled as a set of coordinate pairs.
\<close>

record trace_state =
  currentX :: int
  currentY :: int
  direction :: nat
  boundary :: "(int \<times> int) list"
  visited :: "(int \<times> int) set"
  iterations :: nat

text \<open>
  The \<^verbatim>\<open>for\<close> loop over \<^verbatim>\<open>i = 0 .. 7\<close> (lines 205-240), shared with \<^verbatim>\<open>findPerfectContour\<close>
  (lines 949-964).  The two differ in one test: \<^verbatim>\<open>findSingleOuterBoundary\<close> accepts a
  candidate only if \<^verbatim>\<open>hasWhiteNeighbor\<close> holds, \<^verbatim>\<open>findPerfectContour\<close> has no such test;
  \<open>onEdge\<close> is that test.  The result is \<^verbatim>\<open>(nextX, nextY, nextDirection)\<close>, \<open>None\<close> when
  \<^verbatim>\<open>found\<close> stays false.
\<close>

fun lookForNext ::
  "(int \<Rightarrow> int \<Rightarrow> bool) \<Rightarrow> grid \<Rightarrow> nat \<Rightarrow> nat \<Rightarrow> trace_state \<Rightarrow> nat list
     \<Rightarrow> (int \<times> int \<times> nat) option" where
  "lookForNext onEdge pixels width height s [] = None"
| "lookForNext onEdge pixels width height s (i # is) =
     (let dirIndex = (direction s + i) mod 8;
          (dx, dy) = directions ! dirIndex;
          testX = currentX s + dx;
          testY = currentY s + dy
      in if inImage width height testX testY
            \<and> pixel pixels testX testY = Some 1 \<and> (testX, testY) \<notin> visited s
            \<and> onEdge testX testY
         then Some (testX, testY, (dirIndex + 6) mod 8)
         else lookForNext onEdge pixels width height s is)"

text \<open>
  One pass through the body of the \<^verbatim>\<open>while\<close> loop (lines 201-257); \<open>None\<close> is a
  \<^verbatim>\<open>break\<close>.
\<close>

definition traceStep ::
  "(int \<Rightarrow> int \<Rightarrow> bool) \<Rightarrow> grid \<Rightarrow> nat \<Rightarrow> nat \<Rightarrow> int \<times> int \<Rightarrow> trace_state
     \<Rightarrow> trace_state option" where
  "traceStep onEdge pixels width height start s =
     (case lookForNext onEdge pixels width height s [0..<8] of
        None \<Rightarrow> None
      | Some (nextX, nextY, nextDirection) \<Rightarrow>
          if nextX = fst start \<and> nextY = snd start \<and> length (boundary s) > 3 then None
          else Some (s\<lparr>boundary := boundary s @ [(nextX, - nextY)],
                      visited := insert (nextX, nextY) (visited s),
                      currentX := nextX,
                      currentY := nextY,
                      direction := nextDirection,
                      iterations := iterations s + 1\<rparr>))"

lemma traceStep_iterations:
  "traceStep onEdge pixels width height start s = Some s' \<Longrightarrow> iterations s' = iterations s + 1"
  by (auto simp: traceStep_def split: option.splits if_splits)

text \<open>The \<^verbatim>\<open>while (iterations < maxIterations)\<close> loop.\<close>

function traceLoop ::
  "(int \<Rightarrow> int \<Rightarrow> bool) \<Rightarrow> grid \<Rightarrow> nat \<Rightarrow> nat \<Rightarrow> int \<times> int \<Rightarrow> nat \<Rightarrow> trace_state
     \<Rightarrow> trace_state" where
  "traceLoop onEdge pixels width height start maxIterations s =
     (if iterations s < maxIterations then
        (case traceStep onEdge pixels width height start s of
           None \<Rightarrow> s
         | Some s' \<Rightarrow> traceLoop onEdge pixels width height start maxIterations s')
      else s)"
  by pat_completeness auto
termination
  by (relation "measure (\<lambda>(onEdge, pixels, width, height, start, maxIterations, s).
                   maxIterations - iterations s)")
     (auto dest: traceStep_iterations)

declare traceLoop.simps [simp del]

text \<open>Lines 178-197: the state before the first pass.\<close>

definition initialState :: "int \<times> int \<Rightarrow> trace_state" where
  "initialState start =
     \<lparr>currentX = fst start, currentY = snd start, direction = 0,
      boundary = [(fst start, - snd start)], visited = {(fst start, snd start)},
      iterations = 0\<rparr>"

definition outerBoundaryTrace :: "grid \<Rightarrow> nat \<Rightarrow> nat \<Rightarrow> int \<times> int \<Rightarrow> trace_state" where
  "outerBoundaryTrace pixels width height start =
     traceLoop (hasWhiteNeighbor pixels width height) pixels width height start
       (width * height * 2) (initialState start)"

definition findSingleOuterBoundary :: "grid \<Rightarrow> nat \<Rightarrow> nat \<Rightarrow> (int \<times> int) list" where
  "findSingleOuterBoundary pixels width height =
     (case findStart pixels width height of
        None \<Rightarrow> []
      | Some start \<Rightarrow> boundary (outerBoundaryTrace pixels width height start))"

subsection \<open>findPerfectContour (lines 905-987) and findBoundaryPixels (lines 990-1027)\<close>

text \<open>
  Lines 997-1014: here the centre cell is skipped (\<^verbatim>\<open>continue\<close>), so only the eight
  neighbours are looked at.
\<close>

definition hasWhiteNeighbor8 :: "grid \<Rightarrow> nat \<Rightarrow> nat \<Rightarrow> int \<Rightarrow> int \<Rightarrow> bool" where
  "hasWhiteNeighbor8 pixels width height x y =
     list_ex (\<lambda>dy.
        list_ex (\<lambda>dx.
           if dx = 0 \<and> dy = 0 then False
           else
             let nx = x + dx; ny = y + dy
             in if inImage width height nx ny then pixel pixels nx ny = Some 0 else True)
          [-1, 0, 1])
       [-1, 0, 1]"

definition findBoundaryPixels :: "grid \<Rightarrow> nat \<Rightarrow> nat \<Rightarrow> (int \<times> int) list" where
  "findBoundaryPixels pixels width height =
     concat (map (\<lambda>y.
        map (\<lambda>x. (int x, int y))
          (filter (\<lambda>x. pixel pixels (int x) (int y) = Some 1
                      \<and> hasWhiteNeighbor8 pixels width height (int x) (int y))
             [0..<width]))
       [0..<height])"

text \<open>Lines 911-919: the index of the topmost, then leftmost, boundary pixel.\<close>

fun pickStart :: "(int \<times> int) list \<Rightarrow> nat list \<Rightarrow> nat \<Rightarrow> nat" where
  "pickStart boundaryPixels [] startIdx = startIdx"
| "pickStart boundaryPixels (i # is) startIdx =
     (let (x, y) = boundaryPixels ! i;
          (startX, startY) = boundaryPixels ! startIdx
      in pickStart boundaryPixels is
           (if y < startY \<or> (y = startY \<and> x < startX) then i else startIdx))"

definition perfectContourTrace :: "grid \<Rightarrow> nat \<Rightarrow> nat \<Rightarrow> trace_state" where
  "perfectContourTrace pixels width height =
     (let boundaryPixels = findBoundaryPixels pixels width height;
          startIdx = pickStart boundaryPixels [1..<length boundaryPixels] 0;
          start = boundaryPixels ! startIdx;
          maxIterations = length boundaryPixels * 2
      in traceLoop (\<lambda>testX testY. True) pixels width height start maxIterations
           (initialState start))"

definition findPerfectContour :: "grid \<Rightarrow> nat \<Rightarrow> nat \<Rightarrow> (int \<times> int) list" where
  "findPerfectContour pixels width height =
     (if length (findBoundaryPixels pixels width height) = 0 then []
      else boundary (perfectContourTrace pixels width height))"

section \<open>Path refinement\<close>

subsection \<open>Angles\<close>

text \<open>
  \<^verbatim>\<open>Math.atan2(y, x)\<close>: the angle of the vector \<open>(x, y)\<close>, in \<open>(-pi, pi]\<close>, and 0 for the
  zero vector.
\<close>

definition atan2 :: "real \<Rightarrow> real \<Rightarrow> real" where
  "atan2 y x =
     (if 0 < x then arctan (y / x)
      else if x < 0 \<and> 0 \<le> y then arctan (y / x) + pi
      else if x < 0 then arctan (y / x) - pi
      else if 0 < y then pi / 2
      else if y < 0 then - (pi / 2)
      else 0)"

text \<open>
  Lines 399-400: \<^verbatim>\<open>while (normalizedAngle < 0) normalizedAngle += 2 * Math.PI\<close> and
  \<^verbatim>\<open>while (normalizedAngle >= 2 * Math.PI) normalizedAngle -= 2 * Math.PI\<close>.
\<close>

function normalizeUp :: "real \<Rightarrow> real" where
  "normalizeUp a = (if a < 0 then normalizeUp (a + 2 * pi) else a)"
  by pat_completeness auto
termination
proof (relation "measure (\<lambda>a. nat \<lceil>- a / (2 * pi)\<rceil>)")
  show "wf (measure (\<lambda>a. nat \<lceil>- a / (2 * pi)\<rceil>))" by simp
next
  fix a :: real
  assume neg: "a < 0"
  define x where "x = - a / (2 * pi)"
  have "- (a + 2 * pi) / (2 * pi) = x - 1"
    unfolding x_def by (simp add: field_simps)
  then have c: "\<lceil>- (a + 2 * pi) / (2 * pi)\<rceil> = \<lceil>x\<rceil> - 1"
    by (simp only: ceiling_diff_one)
  from neg have "0 < (- a) / (2 * pi)" by (intro divide_pos_pos) simp_all
  then have "0 < x" unfolding x_def by simp
  then have "0 < \<lceil>x\<rceil>" by (simp only: zero_less_ceiling)
  with c have "nat \<lceil>- (a + 2 * pi) / (2 * pi)\<rceil> < nat \<lceil>x\<rceil>" by linarith
  then show "(a + 2 * pi, a) \<in> measure (\<lambda>a. nat \<lceil>- a / (2 * pi)\<rceil>)"
    unfolding x_def by (simp only: in_measure)
qed

function normalizeDown :: "real \<Rightarrow> real" where
  "normalizeDown a = (if 2 * pi \<le> a then normalizeDown (a - 2 * pi) else a)"
  by pat_completeness auto
termination
proof (relation "measure (\<lambda>a. nat \<lfloor>a / (2 * pi)\<rfloor>)")
  show "wf (measure (\<lambda>a. nat \<lfloor>a / (2 * pi)\<rfloor>))" by simp
next
  fix a :: real
  assume big: "2 * pi \<le> a"
  define x where "x = a / (2 * pi)"
  have "(a - 2 * pi) / (2 * pi) = x - 1"
    unfolding x_def by (simp add: field_simps)
  then have c: "\<lfloor>(a - 2 * pi) / (2 * pi)\<rfloor> = \<lfloor>x\<rfloor> - 1"
    by (simp only: floor_diff_one)
  from big have "1 \<le> x" unfolding x_def by (simp add: field_simps)
  then have "1 \<le> \<lfloor>x\<rfloor>" by (simp only: one_le_floor)
  with c have "nat \<lfloor>(a - 2 * pi) / (2 * pi)\<rfloor> < nat \<lfloor>x\<rfloor>" by linarith
  then show "(a - 2 * pi, a) \<in> measure (\<lambda>a. nat \<lfloor>a / (2 * pi)\<rfloor>)"
    unfolding x_def by (simp only: in_measure)
qed

declare normalizeUp.simps [simp del] normalizeDown.simps [simp del]

subsection \<open>straightenNearOrthogonalLines (lines 378-428 and 3541-3591)\<close>

text \<open>
  The body of the loop (lines 389-422): the point pushed for the segment from \<open>current\<close>
  to \<open>next\<close>.  The two variants of the function differ in the tolerance only (0.03 and
  0.05).
\<close>

definition straightenedNext :: "real \<Rightarrow> point \<Rightarrow> point \<Rightarrow> point" where
  "straightenedNext tolerance current next =
     (let dx = fst next - fst current;
          dy = snd next - snd current;
          angle = atan2 dy dx;
          normalizedAngle = normalizeDown (normalizeUp angle);
          isNearHorizontal = (\<bar>normalizedAngle\<bar> < tolerance
                              \<or> \<bar>normalizedAngle - pi\<bar> < tolerance
                              \<or> \<bar>normalizedAngle - 2 * pi\<bar> < tolerance);
          isNearVertical = (\<bar>normalizedAngle - pi / 2\<bar> < tolerance
                            \<or> \<bar>normalizedAngle - 3 * pi / 2\<bar> < tolerance)
      in if isNearHorizontal then (fst next, snd current)
         else if isNearVertical then (fst current, snd next)
         else next)"

definition straightenWith :: "real \<Rightarrow> polygon \<Rightarrow> polygon" where
  "straightenWith tolerance contour =
     (if length contour < 2 then contour
      else contour ! 0 #
           map (\<lambda>i. straightenedNext tolerance (contour ! i)
                       (contour ! ((i + 1) mod length contour)))
               [0..<length contour])"

definition straightenNearOrthogonalLines :: "polygon \<Rightarrow> polygon" where
  "straightenNearOrthogonalLines contour = straightenWith (3 / 100) contour"

definition straightenNearOrthogonalLines_v3 :: "polygon \<Rightarrow> polygon" where
  "straightenNearOrthogonalLines_v3 contour = straightenWith (5 / 100) contour"

subsection \<open>simplifyContour (lines 604-664)\<close>

text \<open>
  The quotient of \<^verbatim>\<open>getPerpendicularDistance\<close> is written as a partial operation, defined
  for a divisor other than zero only, so that a division by zero would show as \<open>None\<close>.
\<close>

definition quotient :: "real \<Rightarrow> real \<Rightarrow> real option" where
  "quotient a b = (if b = 0 then None else Some (a / b))"

definition getPerpendicularDistance :: "point \<Rightarrow> point \<Rightarrow> point \<Rightarrow> real option" where
  "getPerpendicularDistance point lineStart lineEnd =
     (let A = fst point - fst lineStart;
          B = snd point - snd lineStart;
          C = fst lineEnd - fst lineStart;
          D = snd lineEnd - snd lineStart;
          dot = A * C + B * D;
          lenSq = C * C + D * D
      in if lenSq = 0 then Some (sqrt (A * A + B * B))
         else
           case quotient dot lenSq of
             None \<Rightarrow> None
           | Some param \<Rightarrow>
               let (xx, yy) =
                     (if param < 0 then (fst lineStart, snd lineStart)
                      else if param > 1 then (fst lineEnd, snd lineEnd)
                      else (fst lineStart + param * C, snd lineStart + param * D));
                   dx = fst point - xx;
                   dy = snd point - yy
               in Some (dx * dx + dy * dy))"

text \<open>
  Lines 643-652: the loop over \<^verbatim>\<open>i = 1 .. points.length - 2\<close> that finds the farthest
  point; the accumulator is \<^verbatim>\<open>(maxDistance, maxIndex)\<close>.
\<close>

fun maxDistanceLoop :: "polygon \<Rightarrow> nat list \<Rightarrow> real \<times> nat \<Rightarrow> (real \<times> nat) option" where
  "maxDistanceLoop points [] acc = Some acc"
| "maxDistanceLoop points (i # is) (maxDistance, maxIndex) =
     (case getPerpendicularDistance (points ! i) (points ! 0) (points ! (length points - 1)) of
        None \<Rightarrow> None
      | Some distance \<Rightarrow>
          maxDistanceLoop points is
            (if distance > maxDistance then (distance, i) else (maxDistance, maxIndex)))"

lemma maxDistanceLoop_index:
  "maxDistanceLoop points is acc = Some (md, mi) \<Longrightarrow> mi = snd acc \<or> mi \<in> set is"
proof (induction "is" arbitrary: acc)
  case Nil
  then show ?case by simp
next
  case (Cons i "is")
  obtain d k where acc: "acc = (d, k)" by (cases acc)
  from Cons.prems acc obtain distance where
    step: "maxDistanceLoop points is (if distance > d then (distance, i) else (d, k)) = Some (md, mi)"
    by (auto split: option.splits)
  from Cons.IH[OF step] acc show ?case by (auto split: if_splits)
qed

text \<open>
  \<^verbatim>\<open>douglasPeucker\<close> (lines 640-661).  \<^verbatim>\<open>points.slice(0, maxIndex + 1)\<close> is \<open>take\<close>,
  \<^verbatim>\<open>points.slice(maxIndex)\<close> is \<open>drop\<close>, \<^verbatim>\<open>left.slice(0, -1)\<close> is \<open>butlast\<close>.  With
  \<^verbatim>\<open>maxIndex = 0\<close> the right-hand slice is the whole of \<^verbatim>\<open>points\<close> and the source
  recurses on its own argument until the call stack is exhausted; the model returns
  \<open>None\<close> there.  (It happens for a negative tolerance only.)
\<close>

function douglasPeucker :: "polygon \<Rightarrow> real \<Rightarrow> polygon option" where
  "douglasPeucker points tolerance =
     (if length points \<le> 2 then Some points
      else
        case maxDistanceLoop points [1..<length points - 1] (0, 0) of
          None \<Rightarrow> None
        | Some (maxDistance, maxIndex) \<Rightarrow>
            if maxDistance > tolerance then
              (if maxIndex = 0 then None
               else
                 case douglasPeucker (take (maxIndex + 1) points) tolerance of
                   None \<Rightarrow> None
                 | Some left \<Rightarrow>
                     (case douglasPeucker (drop maxIndex points) tolerance of
                        None \<Rightarrow> None
                      | Some right \<Rightarrow> Some (butlast left @ right)))
            else Some [points ! 0, points ! (length points - 1)])"
  by pat_completeness auto
termination
proof (relation "measure (\<lambda>(points, tolerance). length points)")
  show "wf (measure (\<lambda>(points, tolerance). length points))" by simp
next
  fix points :: polygon and tolerance :: real and x2 maxDistance and maxIndex :: nat
  assume "\<not> length points \<le> 2"
    and "maxDistanceLoop points [1..<length points - 1] (0, 0) = Some x2"
    and "(maxDistance, maxIndex) = x2"
  then have "maxIndex = 0 \<or> maxIndex \<in> set [1..<length points - 1]"
    using maxDistanceLoop_index[of points "[1..<length points - 1]" "(0, 0)" maxDistance maxIndex]
    by simp
  then have "maxIndex + 1 < length points" using \<open>\<not> length points \<le> 2\<close> by auto
  then show "((take (maxIndex + 1) points, tolerance), points, tolerance)
               \<in> measure (\<lambda>(points, tolerance). length points)"
    by simp
next
  fix points :: polygon and tolerance :: real and x2 maxDistance and maxIndex :: nat and x2a
  assume "\<not> length points \<le> 2" and "maxIndex \<noteq> 0"
  then show "((drop maxIndex points, tolerance), points, tolerance)
               \<in> measure (\<lambda>(points, tolerance). length points)"
    by simp
qed

declare douglasPeucker.simps [simp del]

definition simplifyContour :: "polygon \<Rightarrow> real \<Rightarrow> polygon option" where
  "simplifyContour contour tolerance =
     (if length contour \<le> 2 then Some contour
      else
        let scaledTolerance = max (tolerance * (3 / 10)) (5 / 100)
        in douglasPeucker contour scaledTolerance)"

text \<open>
  The simplification stage of \<^verbatim>\<open>convertRasterToDxf\<close> (line 578):
  \<^verbatim>\<open>simplify ? simplifyContour(smoothedPath, simplify * 0.3) : smoothedPath\<close>.
\<close>

definition simplifiedPath :: "real \<Rightarrow> polygon \<Rightarrow> polygon option" where
  "simplifiedPath simplifySetting smoothedPath =
     (if simplifySetting \<noteq> 0 then simplifyContour smoothedPath (simplifySetting * (3 / 10))
      else Some smoothedPath)"

subsection \<open>removeDuplicatePoints (lines 431-466 and 3594-3630)\<close>

fun dedupLoop :: "real \<Rightarrow> polygon \<Rightarrow> polygon \<Rightarrow> polygon" where
  "dedupLoop tolerance [] cleaned = cleaned"
| "dedupLoop tolerance (current # rest) cleaned =
     (let lastPoint = last cleaned;
          dx = fst current - fst lastPoint;
          dy = snd current - snd lastPoint;
          distance = sqrt (dx * dx + dy * dy)
      in dedupLoop tolerance rest
           (if distance > tolerance then cleaned @ [current] else cleaned))"

definition removeDuplicatePoints :: "polygon \<Rightarrow> real \<Rightarrow> polygon" where
  "removeDuplicatePoints contour tolerance =
     (if length contour < 2 then contour
      else
        let cleaned = dedupLoop tolerance (tl contour) [contour ! 0]
        in if length cleaned > 2 then
             (let first = cleaned ! 0;
                  lastPoint = last cleaned;
                  dx = fst lastPoint - fst first;
                  dy = snd lastPoint - snd first;
                  distance = sqrt (dx * dx + dy * dy)
              in if distance < tolerance then butlast cleaned else cleaned)
           else cleaned)"

subsection \<open>adaptivePointReduction (lines 3991-4018)\<close>

text \<open>
  \<^verbatim>\<open>targetPoints\<close> (lines 3995-3997), as a function of the contour's length and the
  reduction factor.
\<close>

definition targetPoints :: "nat \<Rightarrow> real \<Rightarrow> int" where
  "targetPoints n reductionFactor =
     (let maxPoints = 200;
          minPoints = max 50 \<lfloor>real n * (1 / 10)\<rfloor>
      in min maxPoints (max minPoints \<lfloor>real n * (1 - reductionFactor)\<rfloor>))"

definition adaptivePointReduction :: "polygon \<Rightarrow> real \<Rightarrow> polygon" where
  "adaptivePointReduction contour reductionFactor =
     (if length contour \<le> 3 then contour
      else
        let target = targetPoints (length contour) reductionFactor
        in if target \<ge> int (length contour) then contour
           else
             let step = real (length contour) / real_of_int target
             in [contour ! 0]
                @ concat (map (\<lambda>i.
                     let index = \<lfloor>real_of_int i * step\<rfloor>
                     in if index > 0 \<and> index < int (length contour) - 1
                        then [contour ! nat index] else [])
                    [1..target - 2])
                @ [contour ! (length contour - 1)])"

subsection \<open>mergeStraightLineSegments (lines 4021-4062)\<close>

text \<open>Lines 4037-4045: the final value of \<^verbatim>\<open>angleDiff\<close> in one pass of the inner loop.\<close>

definition angleDiff :: "point \<Rightarrow> point \<Rightarrow> point \<Rightarrow> real" where
  "angleDiff startPoint currentPoint nextPoint =
     (let lineAngle = atan2 (snd currentPoint - snd startPoint) (fst currentPoint - fst startPoint);
          nextAngle = atan2 (snd nextPoint - snd currentPoint) (fst nextPoint - fst currentPoint);
          d = \<bar>lineAngle - nextAngle\<bar>
      in min d \<bar>d - pi * 2\<bar>)"

text \<open>The inner \<^verbatim>\<open>while (j < contour.length)\<close> loop; its result is \<^verbatim>\<open>lastGoodPoint\<close>.\<close>

function mergeScan :: "polygon \<Rightarrow> real \<Rightarrow> point \<Rightarrow> nat \<Rightarrow> nat \<Rightarrow> nat" where
  "mergeScan contour angleTolerance startPoint j lastGoodPoint =
     (if j < length contour then
        (let currentPoint = contour ! j;
             nextPoint = contour ! ((j + 1) mod length contour)
         in if angleDiff startPoint currentPoint nextPoint > angleTolerance then lastGoodPoint
            else mergeScan contour angleTolerance startPoint (j + 1) j)
      else lastGoodPoint)"
  by pat_completeness auto
termination
  by (relation "measure (\<lambda>(contour, angleTolerance, startPoint, j, lastGoodPoint).
                   length contour - j)") auto

declare mergeScan.simps [simp del]

text \<open>The outer \<^verbatim>\<open>while (i < contour.length)\<close> loop.\<close>

function mergeFrom :: "polygon \<Rightarrow> real \<Rightarrow> nat \<Rightarrow> polygon \<Rightarrow> polygon" where
  "mergeFrom contour angleTolerance i result =
     (if i < length contour then
        (let startPoint = contour ! i;
             lastGoodPoint = mergeScan contour angleTolerance startPoint (i + 1) i
         in mergeFrom contour angleTolerance (max (lastGoodPoint + 1) (i + 1))
              (result @ [startPoint]))
      else result)"
  by pat_completeness auto
termination
  by (relation "measure (\<lambda>(contour, angleTolerance, i, result). length contour - i)") auto

declare mergeFrom.simps [simp del]

definition mergeStraightLineSegments :: "polygon \<Rightarrow> real \<Rightarrow> polygon" where
  "mergeStraightLineSegments contour angleTolerance =
     (if length contour \<le> 2 then contour else mergeFrom contour angleTolerance 0 [])"

subsection \<open>The refinement chain of the third variant (convertRasterToDxf, lines 3949-3962)\<close>

definition finalPath_v3 :: "real \<Rightarrow> polygon \<Rightarrow> polygon" where
  "finalPath_v3 simplifySetting boundaryPoints =
     (let cleanedPath = removeDuplicatePoints boundaryPoints (1 / 100);
          reducedPath = adaptivePointReduction cleanedPath simplifySetting;
          mergedStraightLines = mergeStraightLineSegments reducedPath (2 / 100);
          straightenedPath = straightenNearOrthogonalLines_v3 mergedStraightLines
      in removeDuplicatePoints straightenedPath (5 / 1000))"

section \<open>Scaling\<close>

subsection \<open>scaleContour (lines 331-375)\<close>

text \<open>
  The fourth argument only feeds the log lines; the bounding box computed after the
  \<^verbatim>\<open>map\<close> is logged and not used for the result.
\<close>

definition scaleContour :: "polygon \<Rightarrow> real \<Rightarrow> real \<Rightarrow> dimensionControl \<Rightarrow> polygon" where
  "scaleContour contour targetDimensionInches imageDimensionPixels dimCtl =
     (if length contour = 0 then contour
      else
        let currentDimensionPixels = imageDimensionPixels;
            scaleFactor = targetDimensionInches / currentDimensionPixels
        in map (\<lambda>(x, y). (x * scaleFactor, y * scaleFactor)) contour)"

text \<open>
  The call of \<^verbatim>\<open>scaleContour\<close> in \<^verbatim>\<open>convertRasterToDxf\<close> (line 587): the target and the
  image dimension are both selected by \<^verbatim>\<open>dimensionControl\<close>.
\<close>

definition scaledPath :: "conversionOptions \<Rightarrow> nat \<Rightarrow> nat \<Rightarrow> polygon \<Rightarrow> polygon" where
  "scaledPath opts imageWidth imageHeight deduplicatedPath =
     scaleContour deduplicatedPath
       (if opt_dimensionControl opts = Width then opt_width opts else opt_height opts)
       (if opt_dimensionControl opts = Width then real imageWidth else real imageHeight)
       (opt_dimensionControl opts)"

subsection \<open>Double-precision rounding\<close>

text \<open>
  A JavaScript number is an IEEE 754 binary64 value, and \<^verbatim>\<open>+\<close>, \<^verbatim>\<open>*\<close> and \<^verbatim>\<open>/\<close> return
  the exact result rounded to the nearest such value, a tie going to the even
  significand.  \<open>binary64\<close> is that rounding on the reals.  A value \<open>x\<close> with
  \<open>2 powi e \<le> \<bar>x\<bar> < 2 powi (e + 1)\<close> is rounded to a multiple of \<open>2 powi (e - 52)\<close>, which
  leaves 53 significant bits; below \<open>2 powi (- 1022)\<close>, in the subnormal range, the
  spacing stays at \<open>2 powi (- 1074)\<close>.

  The exponent is not bounded above.  In the code a result beyond \<open>maxValue\<close>
  (\<^verbatim>\<open>Number.MAX_VALUE\<close>) is \<^verbatim>\<open>Infinity\<close>; \<open>finiteDouble\<close> says that a value of the model
  is within the range, so that the code computes the same number.
\<close>

definition roundHalfEven :: "real \<Rightarrow> int" where
  "roundHalfEven q =
     (let f = \<lfloor>q\<rfloor>; r = q - of_int f
      in if r < 1 / 2 then f
         else if 1 / 2 < r then f + 1
         else if even f then f else f + 1)"

definition exponentOf :: "real \<Rightarrow> int" where
  "exponentOf x = max \<lfloor>log 2 \<bar>x\<bar>\<rfloor> (- 1022)"

definition ulp :: "real \<Rightarrow> real" where
  "ulp x = 2 powi (exponentOf x - 52)"

definition binary64 :: "real \<Rightarrow> real" where
  "binary64 x = (if x = 0 then 0 else ulp x * of_int (roundHalfEven (x / ulp x)))"

definition maxValue :: real where
  "maxValue = (2 ^ 53 - 1) * 2 ^ 971"

definition finiteDouble :: "real \<Rightarrow> bool" where
  "finiteDouble v = (\<bar>v\<bar> \<le> maxValue)"

definition finitePoints :: "polygon \<Rightarrow> bool" where
  "finitePoints ps = list_all (\<lambda>(x, y). finiteDouble x \<and> finiteDouble y) ps"

subsection \<open>scaleContour, third variant (lines 3468-3539)\<close>

text \<open>
  Lines 3507-3510: \<^verbatim>\<open>minY\<close> starts at \<^verbatim>\<open>Infinity\<close>, written \<open>None\<close>, and
  \<^verbatim>\<open>Math.min(Infinity, y)\<close> is \<open>y\<close>.  \<^verbatim>\<open>Math.min\<close> and \<^verbatim>\<open>Math.abs\<close> return one of their
  arguments, up to the sign, and do not round.
\<close>

fun minYLoop :: "polygon \<Rightarrow> real option \<Rightarrow> real option" where
  "minYLoop [] minY = minY"
| "minYLoop ((x, y) # rest) minY =
     minYLoop rest (case minY of None \<Rightarrow> Some y | Some m \<Rightarrow> Some (min m y))"

text \<open>
  The division of line 3480, the products of lines 3491-3501, the sum of line 3514 and
  the sums of line 3516 are each rounded once.
\<close>

definition scaleContour_v3 :: "polygon \<Rightarrow> real \<Rightarrow> real \<Rightarrow> dimensionControl \<Rightarrow> polygon" where
  "scaleContour_v3 contour targetDimensionInches imageDimensionPixels dimCtl =
     (if length contour = 0 then contour
      else
        let currentDimensionPixels = imageDimensionPixels;
            scaleFactor = binary64 (targetDimensionInches / currentDimensionPixels);
            scaledContour =
              map (\<lambda>(x, y). (binary64 (x * scaleFactor), binary64 (y * scaleFactor))) contour;
            scaledUpContour =
              map (\<lambda>(x, y). (binary64 (x * 100), binary64 (y * 100))) scaledContour
        in case minYLoop scaledUpContour None of
             None \<Rightarrow> scaledUpContour
           | Some minY \<Rightarrow>
               if minY < 0 then
                 (let offsetY = binary64 (\<bar>minY\<bar> + 10)
                  in map (\<lambda>(x, y). (x, binary64 (y + offsetY))) scaledUpContour)
               else scaledUpContour)"

section \<open>The DXF writer (SimpleDxfWriter, lines 21-127)\<close>

text \<open>
  The writer's state is its \<^verbatim>\<open>content\<close>, a list of lines.  \<^verbatim>\<open>Number.prototype.toString\<close>
  is a parameter of the model (\<open>numberToString\<close>).
\<close>

record polylineOptions =
  layer :: string
  closed :: bool

definition newWriter :: "string list" where
  "newWriter =
     [''0'', ''SECTION'', ''2'', ''HEADER'', ''0'', ''ENDSEC'',
      ''0'', ''SECTION'', ''2'', ''ENTITIES'']"

fun cleanLoop :: "real \<Rightarrow> polygon \<Rightarrow> polygon \<Rightarrow> polygon" where
  "cleanLoop minDistance [] cleaned = cleaned"
| "cleanLoop minDistance (current # rest) cleaned =
     (let lastPoint = last cleaned;
          dx = fst current - fst lastPoint;
          dy = snd current - snd lastPoint;
          distance = sqrt (dx * dx + dy * dy)
      in cleanLoop minDistance rest
           (if distance \<ge> minDistance then cleaned @ [current] else cleaned))"

definition cleanPoints :: "polygon \<Rightarrow> polygon" where
  "cleanPoints points =
     (if length points < 2 then points
      else
        let minDistance = 1 / 100;
            cleaned = cleanLoop minDistance (tl points) [points ! 0]
        in if length cleaned > 2 then
             (let first = cleaned ! 0;
                  lastPoint = last cleaned;
                  dx = fst lastPoint - fst first;
                  dy = snd lastPoint - snd first;
                  distance = sqrt (dx * dx + dy * dy)
              in if distance \<ge> minDistance then cleaned @ [(fst first, snd first)]
                 else cleaned)
           else cleaned)"

definition lineEntity :: "(real \<Rightarrow> string) \<Rightarrow> string \<Rightarrow> point \<Rightarrow> point \<Rightarrow> string list" where
  "lineEntity numberToString layerName current next =
     [''0'', ''LINE'', ''8'', layerName,
      ''10'', numberToString (fst current),
      ''20'', numberToString (snd current),
      ''30'', ''0.0'',
      ''11'', numberToString (fst next),
      ''21'', numberToString (snd next),
      ''31'', ''0.0'']"

definition addPolyline ::
  "(real \<Rightarrow> string) \<Rightarrow> string list \<Rightarrow> polygon \<Rightarrow> polylineOptions \<Rightarrow> string list" where
  "addPolyline numberToString content points options =
     (if length points < 2 then content
      else
        let cleanedPoints = cleanPoints points
        in content @
           concat (map (\<lambda>i.
              let current = cleanedPoints ! i;
                  next = cleanedPoints ! ((i + 1) mod length cleanedPoints);
                  dx = fst next - fst current;
                  dy = snd next - snd current;
                  distance = sqrt (dx * dx + dy * dy)
              in if distance < 1 / 1000 then []
                 else lineEntity numberToString (layer options) current next)
             [0..<length cleanedPoints]))"

text \<open>
  \<^verbatim>\<open>toString\<close> (lines 120-126) pushes the four closing lines (\<open>finish\<close>) and joins all
  lines with a newline.
\<close>

fun joinLines :: "string list \<Rightarrow> string" where
  "joinLines [] = []"
| "joinLines [l] = l"
| "joinLines (l # m # ls) = l @ [CHR 0x0A] @ joinLines (m # ls)"

definition finish :: "string list \<Rightarrow> string list" where
  "finish content = content @ [''0'', ''ENDSEC'', ''0'', ''EOF'']"

definition toString :: "string list \<Rightarrow> string" where
  "toString content = joinLines (finish content)"

section \<open>Notions used to state the properties\<close>

text \<open>
  The neighbours of the current pixel in the order in which one pass of the trace loop
  tests them, each with the direction the trace would continue in.
\<close>

definition scanOrder :: "trace_state \<Rightarrow> (int \<times> int \<times> nat) list" where
  "scanOrder s =
     map (\<lambda>i. let dirIndex = (direction s + i) mod 8
              in (currentX s + fst (directions ! dirIndex),
                  currentY s + snd (directions ! dirIndex),
                  (dirIndex + 6) mod 8))
       [0..<8]"

text \<open>
  The selection rule in the words of the specification: the first neighbour, in scan
  order, that is an unvisited foreground pixel.
\<close>

definition firstUnvisitedForeground ::
  "grid \<Rightarrow> nat \<Rightarrow> nat \<Rightarrow> trace_state \<Rightarrow> (int \<times> int \<times> nat) option" where
  "firstUnvisitedForeground pixels width height s =
     find (\<lambda>(x, y, d). inImage width height x y \<and> pixel pixels x y = Some 1
                        \<and> (x, y) \<notin> visited s)
       (scanOrder s)"

text \<open>No neighbour of the current pixel is an unvisited foreground pixel.\<close>

definition noUnvisitedForeground :: "grid \<Rightarrow> nat \<Rightarrow> nat \<Rightarrow> trace_state \<Rightarrow> bool" where
  "noUnvisitedForeground pixels width height s =
     list_all (\<lambda>(dx, dy).
        \<not> (inImage width height (currentX s + dx) (currentY s + dy)
           \<and> pixel pixels (currentX s + dx) (currentY s + dy) = Some 1
           \<and> (currentX s + dx, currentY s + dy) \<notin> visited s))
       directions"

text \<open>
  Successive points of a list, starting from \<open>p\<close>, are each farther than the tolerance
  from their predecessor: the duplicate-removal loop then keeps every point.
\<close>

fun spaced :: "real \<Rightarrow> point \<Rightarrow> polygon \<Rightarrow> bool" where
  "spaced tolerance p [] = True"
| "spaced tolerance p (q # qs) =
     (tolerance < sqrt ((fst q - fst p) * (fst q - fst p) + (snd q - snd p) * (snd q - snd p))
      \<and> spaced tolerance q qs)"

text \<open>
  The headings that occur in the example outline below, with their angles, and the test
  of the merging loop (\<^verbatim>\<open>angleDiff > angleTolerance\<close>).
\<close>

datatype heading = East | North | West | South | SouthWest

definition headingOf :: "real \<Rightarrow> real \<Rightarrow> heading option" where
  "headingOf dx dy =
     (if dy = 0 \<and> 0 < dx then Some East
      else if dx = 0 \<and> 0 < dy then Some North
      else if dy = 0 \<and> dx < 0 then Some West
      else if dx = 0 \<and> dy < 0 then Some South
      else if dx = dy \<and> dx < 0 then Some SouthWest
      else None)"

fun headingAngle :: "heading \<Rightarrow> real" where
  "headingAngle East = 0"
| "headingAngle North = pi / 2"
| "headingAngle West = pi"
| "headingAngle South = - (pi / 2)"
| "headingAngle SouthWest = - (3 * pi / 4)"

definition turns :: "real \<Rightarrow> point \<Rightarrow> point \<Rightarrow> point \<Rightarrow> bool" where
  "turns angleTolerance startPoint currentPoint nextPoint =
     (angleDiff startPoint currentPoint nextPoint > angleTolerance)"

subsection \<open>Example inputs\<close>

text \<open>A 3 x 3 image that is all foreground, and the trace state after its first step.\<close>

definition solid3 :: grid where
  "solid3 = [[1, 1, 1], [1, 1, 1], [1, 1, 1]]"

definition afterFirstStep :: trace_state where
  "afterFirstStep =
     \<lparr>currentX = 1, currentY = 0, direction = 6, boundary = [(0, 0), (1, 0)],
      visited = {(1, 0), (0, 0)}, iterations = 1\<rparr>"

text \<open>
  A state of the trace on that image in which the next pixel found is the start pixel
  \<open>(0, 0)\<close> and the polygon has four points.
\<close>

definition closingState :: trace_state where
  "closingState =
     \<lparr>currentX = 1, currentY = 0, direction = 4,
      boundary = [(0, 0), (1, 0), (2, 0), (1, 0)], visited = {(1, 0)}, iterations = 3\<rparr>"

text \<open>
  The outline of a square of side 13, one point per unit step (52 points), starting one
  step after the corner \<open>(0, 0)\<close>; the 51 points that \<^verbatim>\<open>adaptivePointReduction\<close> keeps of it
  for a reduction factor of 0.01 (the point \<open>(0, -1)\<close> is dropped); and the 50 points it
  keeps for a reduction factor of 0.03 (the corner \<open>(13, -13)\<close> is dropped as well).
\<close>

definition squareOutline :: polygon where
  "squareOutline =
     [(1, 0), (2, 0), (3, 0), (4, 0), (5, 0), (6, 0), (7, 0), (8, 0), (9, 0), (10, 0),
      (11, 0), (12, 0), (13, 0), (13, -1), (13, -2), (13, -3), (13, -4), (13, -5),
      (13, -6), (13, -7), (13, -8), (13, -9), (13, -10), (13, -11), (13, -12), (13, -13),
      (12, -13), (11, -13), (10, -13), (9, -13), (8, -13), (7, -13), (6, -13), (5, -13),
      (4, -13), (3, -13), (2, -13), (1, -13), (0, -13), (0, -12), (0, -11), (0, -10),
      (0, -9), (0, -8), (0, -7), (0, -6), (0, -5), (0, -4), (0, -3), (0, -2), (0, -1),
      (0, 0)]"

definition reducedOutline :: polygon where
  "reducedOutline =
     [(1, 0), (2, 0), (3, 0), (4, 0), (5, 0), (6, 0), (7, 0), (8, 0), (9, 0), (10, 0),
      (11, 0), (12, 0), (13, 0), (13, -1), (13, -2), (13, -3), (13, -4), (13, -5),
      (13, -6), (13, -7), (13, -8), (13, -9), (13, -10), (13, -11), (13, -12), (13, -13),
      (12, -13), (11, -13), (10, -13), (9, -13), (8, -13), (7, -13), (6, -13), (5, -13),
      (4, -13), (3, -13), (2, -13), (1, -13), (0, -13), (0, -12), (0, -11), (0, -10),
      (0, -9), (0, -8), (0, -7), (0, -6), (0, -5), (0, -4), (0, -3), (0, -2), (0, 0)]"

definition cutOutline :: polygon where
  "cutOutline =
     [(1, 0), (2, 0), (3, 0), (4, 0), (5, 0), (6, 0), (7, 0), (8, 0), (9, 0), (10, 0),
      (11, 0), (12, 0), (13, 0), (13, -1), (13, -2), (13, -3), (13, -4), (13, -5),
      (13, -6), (13, -7), (13, -8), (13, -9), (13, -10), (13, -11), (13, -12), (12, -13),
      (11, -13), (10, -13), (9, -13), (8, -13), (7, -13), (6, -13), (5, -13), (4, -13),
      (3, -13), (2, -13), (1, -13), (0, -13), (0, -12), (0, -11), (0, -10), (0, -9),
      (0, -8), (0, -7), (0, -6), (0, -5), (0, -4), (0, -3), (0, -2), (0, 0)]"

section \<open>Lemmas about the tracers\<close>

lemma wf_grid_toPixels: "wf_grid (toPixels imageData width height thresh) width height"
  by (simp add: wf_grid_def toPixels_def list_all_iff)

lemma length_findBoundaryPixels:
  "length (findBoundaryPixels pixels width height) \<le> width * height"
proof -
  have row: "length (map (\<lambda>x. (int x, int y)) (filter P [0..<width])) \<le> width" for y P
    using length_filter_le[of P "[0..<width]"] by simp
  have "length (concat (map (\<lambda>y. map (\<lambda>x. (int x, int y)) (filter (P y) [0..<width])) ys))
          \<le> width * length ys" for ys :: "nat list" and P
  proof (induction ys)
    case Nil
    then show ?case by simp
  next
    case (Cons y ys)
    from row[of y "P y"] Cons show ?case by simp
  qed
  from this[of _ "[0..<height]"] show ?thesis
    by (simp add: findBoundaryPixels_def)
qed

lemma traceLoop_iterations:
  "iterations s \<le> maxIterations \<Longrightarrow>
   iterations (traceLoop onEdge pixels width height start maxIterations s) \<le> maxIterations"
proof (induction onEdge pixels width height start maxIterations s rule: traceLoop.induct)
  case (1 onEdge pixels width height start maxIterations s)
  show ?case
  proof (cases "iterations s < maxIterations")
    case True
    show ?thesis
    proof (cases "traceStep onEdge pixels width height start s")
      case None
      with True "1.prems" show ?thesis by (subst traceLoop.simps) simp
    next
      case (Some s')
      from traceStep_iterations[OF Some] True have "iterations s' \<le> maxIterations" by simp
      from "1.IH"[OF True Some this] True Some show ?thesis
        by (subst traceLoop.simps) simp
    qed
  next
    case False
    with "1.prems" show ?thesis by (subst traceLoop.simps) simp
  qed
qed

lemma traceLoop_stopped:
  "maxIterations \<le> iterations (traceLoop onEdge pixels width height start maxIterations s)
   \<or> traceStep onEdge pixels width height start
        (traceLoop onEdge pixels width height start maxIterations s) = None"
proof (induction onEdge pixels width height start maxIterations s rule: traceLoop.induct)
  case (1 onEdge pixels width height start maxIterations s)
  show ?case
  proof (cases "iterations s < maxIterations")
    case True
    show ?thesis
    proof (cases "traceStep onEdge pixels width height start s")
      case None
      with True show ?thesis by (subst (1 2) traceLoop.simps) simp
    next
      case (Some s')
      from "1.IH"[OF True Some] True Some show ?thesis
        by (subst (1 2) traceLoop.simps) simp
    qed
  next
    case False
    then show ?thesis by (subst traceLoop.simps) simp
  qed
qed

lemma traceLoop_boundary_length:
  "length (boundary (traceLoop onEdge pixels width height start maxIterations s))
     + iterations s
   = length (boundary s)
     + iterations (traceLoop onEdge pixels width height start maxIterations s)"
proof (induction onEdge pixels width height start maxIterations s rule: traceLoop.induct)
  case (1 onEdge pixels width height start maxIterations s)
  show ?case
  proof (cases "iterations s < maxIterations")
    case True
    show ?thesis
    proof (cases "traceStep onEdge pixels width height start s")
      case None
      with True show ?thesis by (subst (1 2) traceLoop.simps) simp
    next
      case (Some s')
      from Some have "length (boundary s') = length (boundary s) + 1"
        "iterations s' = iterations s + 1"
        by (auto simp: traceStep_def split: option.splits if_splits)
      with "1.IH"[OF True Some] True Some show ?thesis
        by (subst (1 2) traceLoop.simps) simp
    qed
  next
    case False
    then show ?thesis by (subst (1 2) traceLoop.simps) simp
  qed
qed

lemma length_directions: "length directions = 8"
  by (simp add: directions_def)

lemma directions_nth_mem: "k < 8 \<Longrightarrow> directions ! k \<in> set directions"
  by (rule nth_mem) (simp only: length_directions)

lemma lookForNext_none:
  assumes "noUnvisitedForeground pixels width height s"
  shows "lookForNext onEdge pixels width height s is = None"
proof (induction "is")
  case Nil
  then show ?case by simp
next
  case (Cons i "is")
  let ?k = "(direction s + i) mod 8"
  obtain dx dy where d: "directions ! ?k = (dx, dy)" by (cases "directions ! ?k")
  have "(dx, dy) \<in> set directions"
    using directions_nth_mem[of ?k] d by simp
  with assms have "\<not> (inImage width height (currentX s + dx) (currentY s + dy)
           \<and> pixel pixels (currentX s + dx) (currentY s + dy) = Some 1
           \<and> (currentX s + dx, currentY s + dy) \<notin> visited s)"
    by (auto simp: noUnvisitedForeground_def list_all_iff)
  with d Cons show ?case by (auto simp: Let_def)
qed

lemma scanRow_none:
  "\<forall>x \<in> set xs. pixel pixels (int x) (int y) \<noteq> Some 1 \<Longrightarrow> scanRow pixels y xs = None"
  by (induction xs) auto

lemma scanRows_none:
  "\<forall>y \<in> set ys. \<forall>x < width. pixel pixels (int x) (int y) \<noteq> Some 1 \<Longrightarrow>
   scanRows pixels width ys = None"
  by (induction ys) (auto simp: scanRow_none)

lemma lookForNext_find:
  "lookForNext onEdge pixels width height s is =
     find (\<lambda>(x, y, d). inImage width height x y \<and> pixel pixels x y = Some 1
                        \<and> (x, y) \<notin> visited s \<and> onEdge x y)
       (map (\<lambda>i. let dirIndex = (direction s + i) mod 8
                in (currentX s + fst (directions ! dirIndex),
                    currentY s + snd (directions ! dirIndex),
                    (dirIndex + 6) mod 8)) is)"
  by (induction "is") (simp_all add: Let_def split_beta)

lemma find_Some_mem: "find P xs = Some x \<Longrightarrow> x \<in> set xs"
  by (induction xs) (auto split: if_splits)

lemma scanOrder_offsets:
  "map (\<lambda>(x, y, d). (x - currentX s, y - currentY s)) (scanOrder s)
     = rotate (direction s) directions"
proof (rule nth_equalityI)
  show "length (map (\<lambda>(x, y, d). (x - currentX s, y - currentY s)) (scanOrder s))
          = length (rotate (direction s) directions)"
    by (simp add: scanOrder_def length_directions)
next
  fix i
  assume "i < length (map (\<lambda>(x, y, d). (x - currentX s, y - currentY s)) (scanOrder s))"
  then have i: "i < 8" by (simp add: scanOrder_def)
  then have "scanOrder s ! i =
      (currentX s + fst (directions ! ((direction s + i) mod 8)),
       currentY s + snd (directions ! ((direction s + i) mod 8)),
       ((direction s + i) mod 8 + 6) mod 8)"
    unfolding scanOrder_def by (simp add: Let_def del: upt_Suc)
  moreover have "rotate (direction s) directions ! i = directions ! ((direction s + i) mod 8)"
    using i by (simp add: nth_rotate length_directions)
  ultimately show "map (\<lambda>(x, y, d). (x - currentX s, y - currentY s)) (scanOrder s) ! i
                     = rotate (direction s) directions ! i"
    using i by (simp add: scanOrder_def del: upt_Suc)
qed

section \<open>Lemmas about the refinement stages\<close>

subsection \<open>Snapping\<close>

lemma length_straightenWith:
  "2 \<le> length contour \<Longrightarrow> length (straightenWith tol contour) = length contour + 1"
  by (simp add: straightenWith_def)

lemma last_straightenWith:
  assumes "2 \<le> length contour"
  shows "last (straightenWith tol contour) = straightenedNext tol (last contour) (hd contour)"
proof -
  let ?n = "length contour"
  let ?f = "\<lambda>i. straightenedNext tol (contour ! i) (contour ! ((i + 1) mod ?n))"
  have ne: "contour \<noteq> []"
  proof
    assume "contour = []"
    with assms show False by simp
  qed
  from assms have u: "[0..<?n] = [0..<?n - 1] @ [?n - 1]"
    by (metis Suc_pred' upt_Suc_append zero_le less_le_trans zero_less_numeral)
  have "straightenWith tol contour = contour ! 0 # map ?f [0..<?n]"
    using assms by (simp add: straightenWith_def)
  also have "\<dots> = (contour ! 0 # map ?f [0..<?n - 1]) @ [?f (?n - 1)]"
    by (subst u) simp
  finally have "last (straightenWith tol contour) = ?f (?n - 1)"
    by (simp only: last_snoc)
  moreover have "(?n - 1 + 1) mod ?n = 0"
  proof -
    from assms have "?n - 1 + 1 = ?n" by linarith
    then show ?thesis by (simp only: mod_self)
  qed
  ultimately show ?thesis
    by (simp add: last_conv_nth[OF ne] hd_conv_nth[OF ne])
qed

subsection \<open>Simplification\<close>

lemma getPerpendicularDistance_Some:
  "\<exists>d. getPerpendicularDistance point lineStart lineEnd = Some d \<and> 0 \<le> d"
  by (simp add: getPerpendicularDistance_def quotient_def Let_def split: prod.splits)

lemma maxDistanceLoop_inv:
  "0 \<le> d \<Longrightarrow>
   \<exists>md mi. maxDistanceLoop points is (d, k) = Some (md, mi)
       \<and> ((md = d \<and> mi = k) \<or> (d < md \<and> mi \<in> set is))"
proof (induction "is" arbitrary: d k)
  case Nil
  then show ?case by simp
next
  case (Cons i "is")
  obtain dist where dist:
    "getPerpendicularDistance (points ! i) (points ! 0) (points ! (length points - 1)) = Some dist"
    "0 \<le> dist"
    using getPerpendicularDistance_Some by blast
  show ?case
  proof (cases "dist > d")
    case True
    with Cons.prems have "0 \<le> dist" by simp
    from Cons.IH[OF this, of i] obtain md mi where
      "maxDistanceLoop points is (dist, i) = Some (md, mi)"
      "(md = dist \<and> mi = i) \<or> (dist < md \<and> mi \<in> set is)" by blast
    with True dist show ?thesis by auto
  next
    case False
    from Cons.IH[OF Cons.prems, of k] obtain md mi where
      "maxDistanceLoop points is (d, k) = Some (md, mi)"
      "(md = d \<and> mi = k) \<or> (d < md \<and> mi \<in> set is)" by blast
    with False dist show ?thesis by auto
  qed
qed

lemma maxDistanceLoop_start:
  "\<exists>md mi. maxDistanceLoop points [1..<n] (0, 0) = Some (md, mi)
       \<and> 0 \<le> md \<and> (0 < md \<longrightarrow> 1 \<le> mi \<and> mi < n)"
proof -
  from maxDistanceLoop_inv[of 0 points "[1..<n]" 0] obtain md mi where
    "maxDistanceLoop points [1..<n] (0, 0) = Some (md, mi)"
    "(md = 0 \<and> mi = 0) \<or> (0 < md \<and> mi \<in> set [1..<n])" by auto
  then show ?thesis by auto
qed

lemma douglasPeucker_total:
  "0 \<le> tolerance \<Longrightarrow>
   \<exists>out. douglasPeucker points tolerance = Some out
       \<and> length out \<le> length points \<and> (2 \<le> length points \<longrightarrow> 2 \<le> length out)"
proof (induction points tolerance rule: douglasPeucker.induct)
  case (1 points tolerance)
  show ?case
  proof (cases "length points \<le> 2")
    case True
    then show ?thesis by (simp add: douglasPeucker.simps)
  next
    case False
    obtain md mi where loop: "maxDistanceLoop points [1..<length points - 1] (0, 0) = Some (md, mi)"
      and md: "0 \<le> md" and mi: "0 < md \<Longrightarrow> 1 \<le> mi \<and> mi < length points - 1"
      using maxDistanceLoop_start[of points "length points - 1"] by blast
    show ?thesis
    proof (cases "md > tolerance")
      case far: True
      with "1.prems" mi have mi': "1 \<le> mi" "mi < length points - 1" by auto
      then have nz: "mi \<noteq> 0" by simp
      from "1.IH"(1)[OF False loop refl far nz "1.prems"] obtain left where
        left: "douglasPeucker (take (mi + 1) points) tolerance = Some left"
          "length left \<le> length (take (mi + 1) points)"
          "2 \<le> length (take (mi + 1) points) \<longrightarrow> 2 \<le> length left" by blast
      from "1.IH"(2)[OF False loop refl far nz left(1) "1.prems"] obtain right where
        right: "douglasPeucker (drop mi points) tolerance = Some right"
          "length right \<le> length (drop mi points)"
          "2 \<le> length (drop mi points) \<longrightarrow> 2 \<le> length right" by blast
      from mi' left have l2: "2 \<le> length left" "length left \<le> mi + 1" by auto
      from mi' right have r2: "2 \<le> length right" "length right \<le> length points - mi" by auto
      have "douglasPeucker points tolerance = Some (butlast left @ right)"
        using False loop far nz left(1) right(1) by (subst douglasPeucker.simps) simp
      moreover have "length (butlast left @ right) \<le> length points"
        using l2 r2 mi' by simp
      moreover have "2 \<le> length (butlast left @ right)"
        using l2 r2 by simp
      ultimately show ?thesis by simp
    next
      case near: False
      have "douglasPeucker points tolerance = Some [points ! 0, points ! (length points - 1)]"
        using False loop near by (subst douglasPeucker.simps) simp
      with False show ?thesis by simp
    qed
  qed
qed

lemma douglasPeucker_mono:
  "0 \<le> t1 \<Longrightarrow> t1 \<le> t2 \<Longrightarrow>
   douglasPeucker points t1 = Some out1 \<Longrightarrow> douglasPeucker points t2 = Some out2 \<Longrightarrow>
   length out2 \<le> length out1"
proof (induction points t1 arbitrary: out1 out2 rule: douglasPeucker.induct)
  case (1 points t1)
  show ?case
  proof (cases "length points \<le> 2")
    case True
    with "1.prems" show ?thesis by (simp add: douglasPeucker.simps)
  next
    case False
    obtain md mi where loop: "maxDistanceLoop points [1..<length points - 1] (0, 0) = Some (md, mi)"
      and md: "0 \<le> md" and mi: "0 < md \<Longrightarrow> 1 \<le> mi \<and> mi < length points - 1"
      using maxDistanceLoop_start[of points "length points - 1"] by blast
    show ?thesis
    proof (cases "md > t2")
      case far2: True
      with "1.prems" have far1: "md > t1" by simp
      with "1.prems" mi have mi': "1 \<le> mi" "mi < length points - 1" by auto
      then have nz: "mi \<noteq> 0" by simp
      from "1.prems"(3) False loop far1 nz obtain l1 r1 where
        l1: "douglasPeucker (take (mi + 1) points) t1 = Some l1"
        and r1: "douglasPeucker (drop mi points) t1 = Some r1"
        and o1: "out1 = butlast l1 @ r1"
        by (subst (asm) douglasPeucker.simps) (auto split: option.splits)
      from "1.prems"(4) False loop far2 nz obtain l2 r2 where
        l2: "douglasPeucker (take (mi + 1) points) t2 = Some l2"
        and r2: "douglasPeucker (drop mi points) t2 = Some r2"
        and o2: "out2 = butlast l2 @ r2"
        by (subst (asm) douglasPeucker.simps) (auto split: option.splits)
      from "1.IH"(1)[OF False loop refl far1 nz "1.prems"(1,2) l1 l2]
      have a: "length l2 \<le> length l1" .
      from "1.IH"(2)[OF False loop refl far1 nz l1 "1.prems"(1,2) r1 r2]
      have b: "length r2 \<le> length r1" .
      from a b o1 o2 show ?thesis by simp
    next
      case near2: False
      then have o2: "out2 = [points ! 0, points ! (length points - 1)]"
        using "1.prems"(4) False loop by (subst (asm) douglasPeucker.simps) simp
      from douglasPeucker_total[OF "1.prems"(1), of points] "1.prems"(3) False
      have "2 \<le> length out1" by auto
      with o2 show ?thesis by simp
    qed
  qed
qed

subsection \<open>Point reduction\<close>

lemma targetPoints_ge: "50 \<le> targetPoints n r"
  by (simp add: targetPoints_def Let_def)

lemma targetPoints_antimono:
  assumes "r1 \<le> r2"
  shows "targetPoints n r2 \<le> targetPoints n r1"
proof -
  from assms have "real n * (1 - r2) \<le> real n * (1 - r1)"
    by (intro mult_left_mono) simp_all
  then have "\<lfloor>real n * (1 - r2)\<rfloor> \<le> \<lfloor>real n * (1 - r1)\<rfloor>"
    by (rule floor_mono)
  then show ?thesis
    unfolding targetPoints_def Let_def by (intro min.mono max.mono order_refl)
qed

lemma resample_index_bounds:
  fixes n :: nat and T i :: int
  assumes T: "2 \<le> T" "T < int n" and i: "1 \<le> i" "i \<le> T - 2"
  shows "0 < \<lfloor>real_of_int i * (real n / real_of_int T)\<rfloor>"
    and "\<lfloor>real_of_int i * (real n / real_of_int T)\<rfloor> < int n - 1"
proof -
  define q where "q = real n / real_of_int T"
  from T have Tpos: "0 < real_of_int T" by simp
  from T(2) have "real_of_int T < real_of_int (int n)" by (simp only: of_int_less_iff)
  then have "real_of_int T < real n" by simp
  with Tpos have q1: "1 < q" unfolding q_def by (simp add: field_simps)
  have Tq: "real_of_int T * q = real n" unfolding q_def using Tpos by simp
  from i(1) have i1: "1 \<le> real_of_int i" by simp
  have "1 * 1 \<le> real_of_int i * q"
    by (rule mult_mono) (use i1 q1 in simp_all)
  then have "1 \<le> real_of_int i * q" by simp
  then have "1 \<le> \<lfloor>real_of_int i * q\<rfloor>" by (simp add: le_floor_iff)
  then show "0 < \<lfloor>real_of_int i * (real n / real_of_int T)\<rfloor>"
    unfolding q_def by simp
  from i(2) have "real_of_int i \<le> real_of_int (T - 2)" by (simp only: of_int_le_iff)
  then have "real_of_int i \<le> real_of_int T - 2" by simp
  with q1 have "real_of_int i * q \<le> (real_of_int T - 2) * q"
    by (intro mult_right_mono) simp_all
  also have "\<dots> = real n - 2 * q" using Tq by (simp add: algebra_simps)
  also have "\<dots> < real n - 2" using q1 by simp
  finally have "real_of_int i * q < real_of_int (int n - 1)" by simp
  then have "\<lfloor>real_of_int i * q\<rfloor> < int n - 1" by (simp only: floor_less_iff)
  then show "\<lfloor>real_of_int i * (real n / real_of_int T)\<rfloor> < int n - 1"
    unfolding q_def .
qed

lemma concat_map_if_singleton:
  "(\<And>x. x \<in> set xs \<Longrightarrow> P x) \<Longrightarrow>
   concat (map (\<lambda>x. if P x then [f x] else []) xs) = map f xs"
  by (induction xs) simp_all

lemma adaptivePointReduction_resample:
  assumes "3 < length contour"
    and "targetPoints (length contour) r < int (length contour)"
  shows "adaptivePointReduction contour r
           = [contour ! 0]
             @ map (\<lambda>i. contour ! nat \<lfloor>real_of_int i
                            * (real (length contour)
                               / real_of_int (targetPoints (length contour) r))\<rfloor>)
                 [1..targetPoints (length contour) r - 2]
             @ [contour ! (length contour - 1)]"
proof -
  let ?n = "length contour"
  let ?T = "targetPoints ?n r"
  let ?idx = "\<lambda>i. \<lfloor>real_of_int i * (real ?n / real_of_int ?T)\<rfloor>"
  have T2: "2 \<le> ?T" using targetPoints_ge[of ?n r] by simp
  have inner: "concat (map (\<lambda>i. if ?idx i > 0 \<and> ?idx i < int ?n - 1
                                 then [contour ! nat (?idx i)] else []) [1..?T - 2])
                 = map (\<lambda>i. contour ! nat (?idx i)) [1..?T - 2]"
    by (rule concat_map_if_singleton)
       (use resample_index_bounds[OF T2 assms(2)] in auto)
  have "adaptivePointReduction contour r
          = [contour ! 0]
            @ concat (map (\<lambda>i. if ?idx i > 0 \<and> ?idx i < int ?n - 1
                                 then [contour ! nat (?idx i)] else []) [1..?T - 2])
            @ [contour ! (?n - 1)]"
    using assms unfolding adaptivePointReduction_def Let_def by simp
  with inner show ?thesis by (simp only:)
qed

lemma length_adaptivePointReduction:
  "length (adaptivePointReduction contour r)
     = (if length contour \<le> 3 \<or> int (length contour) \<le> targetPoints (length contour) r
        then length contour
        else nat (targetPoints (length contour) r))"
proof (cases "length contour \<le> 3 \<or> int (length contour) \<le> targetPoints (length contour) r")
  case True
  then show ?thesis by (auto simp: adaptivePointReduction_def Let_def)
next
  case False
  then have a: "3 < length contour"
    "targetPoints (length contour) r < int (length contour)" by auto
  have "2 \<le> targetPoints (length contour) r"
    using targetPoints_ge[of "length contour" r] by simp
  then show ?thesis
    using False by (simp add: adaptivePointReduction_resample[OF a])
qed

lemma adaptivePointReduction_mono:
  assumes "r1 \<le> r2"
  shows "length (adaptivePointReduction contour r2) \<le> length (adaptivePointReduction contour r1)"
proof -
  let ?n = "length contour"
  have a: "targetPoints ?n r2 \<le> targetPoints ?n r1"
    using assms by (rule targetPoints_antimono)
  have b: "50 \<le> targetPoints ?n r2" "50 \<le> targetPoints ?n r1"
    by (rule targetPoints_ge)+
  show ?thesis
    unfolding length_adaptivePointReduction using a b by (auto simp: nat_le_iff)
qed

subsection \<open>Evaluating the refinement chain on the square outline\<close>

lemma len_sq: "length squareOutline = 52"
  by (simp add: squareOutline_def)

lemma sqrt_scaled_lt_one: "0 < k \<Longrightarrow> (sqrt x * k < 1) = (x * k\<^sup>2 < 1)"
proof -
  assume k: "0 < k"
  have "sqrt x * k = sqrt (x * k\<^sup>2)" using k by (simp add: real_sqrt_mult)
  then have "(sqrt x * k < 1) = (sqrt (x * k\<^sup>2) < sqrt 1)" by simp
  also have "\<dots> = (x * k\<^sup>2 < 1)" by (rule real_sqrt_less_iff)
  finally show ?thesis .
qed

lemma one_lt_sqrt_scaled: "0 < k \<Longrightarrow> (1 < sqrt x * k) = (1 < x * k\<^sup>2)"
proof -
  assume k: "0 < k"
  have "sqrt x * k = sqrt (x * k\<^sup>2)" using k by (simp add: real_sqrt_mult)
  then have "(1 < sqrt x * k) = (sqrt 1 < sqrt (x * k\<^sup>2))" by simp
  also have "\<dots> = (1 < x * k\<^sup>2)" by (rule real_sqrt_less_iff)
  finally show ?thesis .
qed

lemma dedupLoop_spaced:
  "cleaned \<noteq> [] \<Longrightarrow> spaced tolerance (last cleaned) rest \<Longrightarrow>
   dedupLoop tolerance rest cleaned = cleaned @ rest"
proof (induction rest arbitrary: cleaned)
  case Nil
  then show ?case by simp
next
  case (Cons q qs)
  from Cons.prems have "spaced tolerance (last (cleaned @ [q])) qs" by simp
  from Cons.IH[OF _ this] Cons.prems show ?case by (simp add: Let_def)
qed

lemma spaced_square: "spaced (1 / 100) (1, 0) (tl squareOutline)"
  unfolding squareOutline_def
  by (simp add: one_lt_sqrt_scaled)

lemma dedup_square:
  "removeDuplicatePoints squareOutline (1 / 100) = squareOutline"
proof -
  have e: "last squareOutline = (0, 0)" "squareOutline ! 0 = (1, 0)"
    "squareOutline = (1, 0) # tl squareOutline"
    by (simp_all add: squareOutline_def)
  have "dedupLoop (1 / 100) (tl squareOutline) [(1, 0)] = [(1, 0)] @ tl squareOutline"
    by (rule dedupLoop_spaced) (simp_all add: spaced_square)
  with e(3) have "dedupLoop (1 / 100) (tl squareOutline) [(1, 0)] = squareOutline" by simp
  with e(1,2) show ?thesis
    by (simp add: removeDuplicatePoints_def len_sq Let_def sqrt_scaled_lt_one)
qed

lemma atan2_heading:
  "headingOf dx dy = Some h \<Longrightarrow> atan2 dy dx = headingAngle h"
  by (auto simp: headingOf_def atan2_def arctan_one split: if_splits)

lemma gap_headings:
  assumes "0 \<le> tol" "tol < 1 / 2"
  shows "(tol < min \<bar>headingAngle h1 - headingAngle h2\<bar>
                   \<bar>\<bar>headingAngle h1 - headingAngle h2\<bar> - pi * 2\<bar>) = (h1 \<noteq> h2)"
  using assms pi_ge_two pi_less_4
  by (cases h1; cases h2) (simp_all add: min_def abs_if)

lemma turns_headings:
  assumes "headingOf (fst c - fst s) (snd c - snd s) \<noteq> None"
    and "headingOf (fst n - fst c) (snd n - snd c) \<noteq> None"
    and "0 \<le> tol" "tol < 1 / 2"
  shows "turns tol s c n
           = (headingOf (fst c - fst s) (snd c - snd s) \<noteq> headingOf (fst n - fst c) (snd n - snd c))"
proof -
  from assms(1,2) obtain h1 h2 where
    h: "headingOf (fst c - fst s) (snd c - snd s) = Some h1"
       "headingOf (fst n - fst c) (snd n - snd c) = Some h2" by auto
  show ?thesis
    unfolding turns_def angleDiff_def Let_def atan2_heading[OF h(1)] atan2_heading[OF h(2)]
    using gap_headings[OF assms(3,4), of h1 h2] h by simp
qed

lemma mergeScan_step:
  "mergeScan contour angleTolerance startPoint j lastGoodPoint =
     (if j < length contour then
        (if turns angleTolerance startPoint (contour ! j) (contour ! ((j + 1) mod length contour))
         then lastGoodPoint
         else mergeScan contour angleTolerance startPoint (j + 1) j)
      else lastGoodPoint)"
  by (subst mergeScan.simps) (simp add: turns_def Let_def)

lemma mergeFrom_step:
  "mergeFrom contour angleTolerance i result =
     (if i < length contour then
        mergeFrom contour angleTolerance
          (max (mergeScan contour angleTolerance (contour ! i) (i + 1) i + 1) (i + 1))
          (result @ [contour ! i])
      else result)"
  by (subst mergeFrom.simps) (simp add: Let_def)

lemma target_1: "targetPoints 52 (1 / 100) = 51"
proof -
  have "\<lfloor>(52::real) * (1 - 1 / 100)\<rfloor> = 51" by (simp add: floor_eq_iff)
  moreover have "\<lfloor>(52::real) * (1 / 10)\<rfloor> = 5" by (simp add: floor_eq_iff)
  ultimately show ?thesis by (simp add: targetPoints_def)
qed

lemma target_3: "targetPoints 52 (3 / 100) = 50"
proof -
  have "\<lfloor>(52::real) * (1 - 3 / 100)\<rfloor> = 50" by (simp add: floor_eq_iff)
  moreover have "\<lfloor>(52::real) * (1 / 10)\<rfloor> = 5" by (simp add: floor_eq_iff)
  ultimately show ?thesis by (simp add: targetPoints_def)
qed

lemma resample_index_51:
  assumes "1 \<le> i" "i \<le> 49"
  shows "\<lfloor>real_of_int i * (real (52::nat) / real_of_int (51::int))\<rfloor> = i"
proof -
  have "real_of_int i \<le> real_of_int i * (52 / 51)" using assms by simp
  moreover have "real_of_int i * (52 / 51) < real_of_int i + 1" using assms by simp
  ultimately have "\<lfloor>real_of_int i * (52 / 51)\<rfloor> = i" by (simp add: floor_eq_iff)
  then show ?thesis by simp
qed

lemma resample_index_50:
  assumes "1 \<le> i" "i \<le> 48"
  shows "\<lfloor>real_of_int i * (real (52::nat) / real_of_int (50::int))\<rfloor>
           = (if i \<le> 24 then i else i + 1)"
proof (cases "i \<le> 24")
  case True
  have "real_of_int i \<le> real_of_int i * (52 / 50)" using assms by simp
  moreover have "real_of_int i * (52 / 50) < real_of_int i + 1" using True by simp
  ultimately have "\<lfloor>real_of_int i * (52 / 50)\<rfloor> = i" by (simp add: floor_eq_iff)
  with True show ?thesis by simp
next
  case False
  then have "real_of_int (i + 1) \<le> real_of_int i * (52 / 50)" by simp
  moreover have "real_of_int i * (52 / 50) < real_of_int (i + 1) + 1" using assms by simp
  ultimately have "\<lfloor>real_of_int i * (52 / 50)\<rfloor> = i + 1" by (simp only: floor_eq_iff)
  with False show ?thesis by simp
qed

lemma reduce_1: "adaptivePointReduction squareOutline (1 / 100) = reducedOutline"
proof -
  have big: "3 < length squareOutline"
    "targetPoints (length squareOutline) (1 / 100) < int (length squareOutline)"
    by (simp_all add: len_sq target_1)
  have "map (\<lambda>i. squareOutline ! nat \<lfloor>real_of_int i * (real (52::nat) / real_of_int (51::int))\<rfloor>)
          [1..49]
        = map (\<lambda>i. squareOutline ! nat i) [1..49]"
    by (rule map_cong[OF refl]) (simp only: resample_index_51 set_upto atLeastAtMost_iff)
  also have "\<dots> = butlast (tl reducedOutline)"
    unfolding squareOutline_def reducedOutline_def
    by (simp add: upto_rec1)
  finally have mid:
    "map (\<lambda>i. squareOutline ! nat \<lfloor>real_of_int i * (real (52::nat) / real_of_int (51::int))\<rfloor>)
       [1..49] = butlast (tl reducedOutline)" .
  have ends: "squareOutline ! 0 = (1, 0)" "squareOutline ! (52 - 1) = (0, 0)"
    by (simp_all add: squareOutline_def)
  have t: "(51::int) - 2 = 49" by simp
  have "adaptivePointReduction squareOutline (1 / 100)
          = [(1, 0)] @ butlast (tl reducedOutline) @ [(0, 0)]"
    unfolding adaptivePointReduction_resample[OF big] len_sq target_1 t mid ends ..
  also have "\<dots> = reducedOutline"
    by (simp add: reducedOutline_def)
  finally show ?thesis .
qed

lemma reduce_3: "adaptivePointReduction squareOutline (3 / 100) = cutOutline"
proof -
  have big: "3 < length squareOutline"
    "targetPoints (length squareOutline) (3 / 100) < int (length squareOutline)"
    by (simp_all add: len_sq target_3)
  have "map (\<lambda>i. squareOutline ! nat \<lfloor>real_of_int i * (real (52::nat) / real_of_int (50::int))\<rfloor>)
          [1..48]
        = map (\<lambda>i. squareOutline ! nat (if i \<le> 24 then i else i + 1)) [1..48]"
    by (rule map_cong[OF refl]) (simp only: resample_index_50 set_upto atLeastAtMost_iff)
  also have "\<dots> = butlast (tl cutOutline)"
    unfolding squareOutline_def cutOutline_def
    by (simp add: upto_rec1)
  finally have mid:
    "map (\<lambda>i. squareOutline ! nat \<lfloor>real_of_int i * (real (52::nat) / real_of_int (50::int))\<rfloor>)
       [1..48] = butlast (tl cutOutline)" .
  have ends: "squareOutline ! 0 = (1, 0)" "squareOutline ! (52 - 1) = (0, 0)"
    by (simp_all add: squareOutline_def)
  have t: "(50::int) - 2 = 48" by simp
  have "adaptivePointReduction squareOutline (3 / 100)
          = [(1, 0)] @ butlast (tl cutOutline) @ [(0, 0)]"
    unfolding adaptivePointReduction_resample[OF big] len_sq target_3 t mid ends ..
  also have "\<dots> = cutOutline"
    by (simp add: cutOutline_def)
  finally show ?thesis .
qed

lemma merge_reduced:
  "mergeStraightLineSegments reducedOutline (2 / 100)
     = [(1, 0), (13, 0), (13, -13), (0, -13), (0, 0)]"
  unfolding reducedOutline_def mergeStraightLineSegments_def
  by (simp add: mergeFrom_step mergeScan_step turns_headings headingOf_def)

lemma merge_cut:
  "mergeStraightLineSegments cutOutline (2 / 100)
     = [(1, 0), (13, 0), (13, -12), (12, -13), (0, -13), (0, 0)]"
  unfolding cutOutline_def mergeStraightLineSegments_def
  by (simp add: mergeFrom_step mergeScan_step turns_headings headingOf_def)

lemma normalizeUp_nonneg: "0 \<le> a \<Longrightarrow> normalizeUp a = a"
  by (subst normalizeUp.simps) simp

lemma normalizeUp_once: "a < 0 \<Longrightarrow> 0 \<le> a + 2 * pi \<Longrightarrow> normalizeUp a = a + 2 * pi"
  by (subst normalizeUp.simps) (simp add: normalizeUp_nonneg)

lemma normalizeDown_small: "a < 2 * pi \<Longrightarrow> normalizeDown a = a"
  by (subst normalizeDown.simps) simp

lemma normalized_heading:
  "normalizeDown (normalizeUp (headingAngle h))
     = (case h of South \<Rightarrow> 3 * pi / 2 | SouthWest \<Rightarrow> 5 * pi / 4 | _ \<Rightarrow> headingAngle h)"
proof (cases h)
  case South
  have "normalizeUp (- (pi / 2)) = - (pi / 2) + 2 * pi"
    by (rule normalizeUp_once) (use pi_ge_two in simp_all)
  also have "\<dots> = 3 * pi / 2" by simp
  finally have up: "normalizeUp (- (pi / 2)) = 3 * pi / 2" .
  have down: "normalizeDown (3 * pi / 2) = 3 * pi / 2"
    by (rule normalizeDown_small) (use pi_gt_zero in simp)
  show ?thesis
    unfolding South by (simp only: headingAngle.simps heading.case up down)
next
  case SouthWest
  have "normalizeUp (- (3 * pi / 4)) = - (3 * pi / 4) + 2 * pi"
    by (rule normalizeUp_once) (use pi_ge_two in simp_all)
  also have "\<dots> = 5 * pi / 4" by simp
  finally have up: "normalizeUp (- (3 * pi / 4)) = 5 * pi / 4" .
  have down: "normalizeDown (5 * pi / 4) = 5 * pi / 4"
    by (rule normalizeDown_small) (use pi_gt_zero in simp)
  show ?thesis
    unfolding SouthWest by (simp only: headingAngle.simps heading.case up down)
qed (use pi_gt_zero in \<open>simp_all add: normalizeUp_nonneg normalizeDown_small\<close>)

lemma straightenedNext_heading:
  assumes h: "headingOf (fst n - fst c) (snd n - snd c) \<noteq> None"
    and tol: "0 < tol" "tol < 1 / 2"
  shows "straightenedNext tol c n = n"
proof -
  from h obtain hd where hd: "headingOf (fst n - fst c) (snd n - snd c) = Some hd" by auto
  have ang: "normalizeDown (normalizeUp (atan2 (snd n - snd c) (fst n - fst c)))
               = (case hd of South \<Rightarrow> 3 * pi / 2 | SouthWest \<Rightarrow> 5 * pi / 4
                  | _ \<Rightarrow> headingAngle hd)"
    by (simp only: atan2_heading[OF hd] normalized_heading)
  show ?thesis
  proof (cases hd)
    case East
    with hd have "snd n = snd c" by (auto simp: headingOf_def split: if_splits)
    with East tol show ?thesis
      unfolding straightenedNext_def Let_def ang by (simp add: prod_eq_iff)
  next
    case North
    with hd have "fst n = fst c" by (auto simp: headingOf_def split: if_splits)
    with North tol pi_ge_two pi_less_4 show ?thesis
      unfolding straightenedNext_def Let_def ang by (simp add: prod_eq_iff abs_if)
  next
    case West
    with hd have "snd n = snd c" by (auto simp: headingOf_def split: if_splits)
    with West tol show ?thesis
      unfolding straightenedNext_def Let_def ang by (simp add: prod_eq_iff)
  next
    case South
    with hd have "fst n = fst c" by (auto simp: headingOf_def split: if_splits)
    with South tol pi_ge_two pi_less_4 show ?thesis
      unfolding straightenedNext_def Let_def ang by (simp add: prod_eq_iff abs_if)
  next
    case SouthWest
    with tol pi_ge_two pi_less_4 show ?thesis
      unfolding straightenedNext_def Let_def ang by (simp add: prod_eq_iff abs_if)
  qed
qed

lemma straighten_reduced:
  "straightenNearOrthogonalLines_v3 [(1, 0), (13, 0), (13, -13), (0, -13), (0, 0)]
     = [(1, 0), (13, 0), (13, -13), (0, -13), (0, 0), (1, 0)]"
  by (simp add: straightenNearOrthogonalLines_v3_def straightenWith_def upt_rec
        straightenedNext_heading headingOf_def)

lemma straighten_cut:
  "straightenNearOrthogonalLines_v3 [(1, 0), (13, 0), (13, -12), (12, -13), (0, -13), (0, 0)]
     = [(1, 0), (13, 0), (13, -12), (12, -13), (0, -13), (0, 0), (1, 0)]"
  by (simp add: straightenNearOrthogonalLines_v3_def straightenWith_def upt_rec
        straightenedNext_heading headingOf_def)

lemma final_reduced:
  "removeDuplicatePoints [(1, 0), (13, 0), (13, -13), (0, -13), (0, 0), (1, 0)] (5 / 1000)
     = [(1, 0), (13, 0), (13, -13), (0, -13), (0, 0)]"
proof -
  have "dedupLoop (5 / 1000) [(13, 0), (13, -13), (0, -13), (0, 0), (1, 0)] [(1, 0)]
          = [(1, 0)] @ [(13, 0), (13, -13), (0, -13), (0, 0), (1, 0)]"
    by (rule dedupLoop_spaced) (simp_all add: one_lt_sqrt_scaled)
  then show ?thesis
    by (simp add: removeDuplicatePoints_def Let_def del: dedupLoop.simps)
qed

lemma final_cut:
  "removeDuplicatePoints
     [(1, 0), (13, 0), (13, -12), (12, -13), (0, -13), (0, 0), (1, 0)] (5 / 1000)
     = [(1, 0), (13, 0), (13, -12), (12, -13), (0, -13), (0, 0)]"
proof -
  have "dedupLoop (5 / 1000) [(13, 0), (13, -12), (12, -13), (0, -13), (0, 0), (1, 0)] [(1, 0)]
          = [(1, 0)] @ [(13, 0), (13, -12), (12, -13), (0, -13), (0, 0), (1, 0)]"
    by (rule dedupLoop_spaced) (simp_all add: one_lt_sqrt_scaled)
  then show ?thesis
    by (simp add: removeDuplicatePoints_def Let_def del: dedupLoop.simps)
qed

section \<open>Lemmas about scaling\<close>

lemma minYLoop_fold:
  "minYLoop ps (Some m) = Some (fold min (map snd ps) m)"
proof (induction ps arbitrary: m)
  case Nil
  then show ?case by simp
next
  case (Cons p ps)
  obtain x y where p: "p = (x, y)" by (cases p)
  from Cons[of "min m y"] p show ?case by (simp add: min.commute)
qed

lemma minYLoop_None:
  assumes "ps \<noteq> []"
  shows "minYLoop ps None = Some (Min (snd ` set ps))"
proof -
  from assms obtain x y rest where ps: "ps = (x, y) # rest" by (cases ps) auto
  have "minYLoop ps None = Some (fold min (map snd rest) y)"
    unfolding ps by (simp add: minYLoop_fold)
  also have "fold min (map snd rest) y = Min (set (y # map snd rest))"
    by (rule Min.set_eq_fold[symmetric])
  also have "set (y # map snd rest) = snd ` set ps"
    unfolding ps by simp
  finally show ?thesis .
qed

section \<open>Lemmas about rounding\<close>

subsection \<open>Powers of two\<close>

lemma powr_powi: "2 powr (real_of_int k) = (2::real) powi k"
  by (simp add: powr_real_of_int power_int_def power_one_over[symmetric] inverse_eq_divide)

lemma floor_log2_iff:
  assumes "0 < x"
  shows "(\<lfloor>log 2 x\<rfloor> = k) = (2 powi k \<le> x \<and> x < 2 powi (k + 1))"
  using floor_log_eq_powr_iff[of x 2 k] assms powr_powi[of k] powr_powi[of "k + 1"]
  by (simp add: add.commute)

subsection \<open>Rounding to an integer\<close>

lemma roundHalfEven_of_int: "roundHalfEven (of_int k) = k"
  by (simp add: roundHalfEven_def)

lemma roundHalfEven_cases:
  "roundHalfEven q = \<lfloor>q\<rfloor> \<or> roundHalfEven q = \<lfloor>q\<rfloor> + 1"
  by (simp add: roundHalfEven_def Let_def)

lemma roundHalfEven_mono:
  assumes "q1 \<le> q2"
  shows "roundHalfEven q1 \<le> roundHalfEven q2"
proof (cases "\<lfloor>q1\<rfloor> = \<lfloor>q2\<rfloor>")
  case True
  then show ?thesis using assms by (auto simp add: roundHalfEven_def Let_def)
next
  case False
  then have "\<lfloor>q1\<rfloor> + 1 \<le> \<lfloor>q2\<rfloor>" using floor_mono[OF assms] by linarith
  moreover have "roundHalfEven q1 \<le> \<lfloor>q1\<rfloor> + 1" using roundHalfEven_cases[of q1] by linarith
  moreover have "\<lfloor>q2\<rfloor> \<le> roundHalfEven q2" using roundHalfEven_cases[of q2] by linarith
  ultimately show ?thesis by linarith
qed

lemma roundHalfEven_minus: "roundHalfEven (- q) = - roundHalfEven q"
proof (cases "q = of_int \<lfloor>q\<rfloor>")
  case True
  then obtain k where "q = of_int k" by blast
  then show ?thesis using roundHalfEven_of_int[of k] roundHalfEven_of_int[of "- k"] by simp
next
  case False
  then have lt: "of_int \<lfloor>q\<rfloor> < q" using of_int_floor_le[of q] by linarith
  have "\<lfloor>- q\<rfloor> = - \<lfloor>q\<rfloor> - 1"
    using lt by (simp add: floor_eq_iff) linarith
  then show ?thesis
    by (auto simp add: roundHalfEven_def Let_def)
qed

subsection \<open>Rounding to a double\<close>

lemma two_powi_split: "(2::real) powi (e + 1) = 2 powi (e - 52) * 2 ^ 53"
proof -
  have eq: "e + 1 = (e - 52) + 53" by simp
  have "(2::real) powi ((e - 52) + 53) = 2 powi (e - 52) * 2 powi 53"
    by (rule power_int_add) simp
  then show ?thesis by (simp only: eq power_int_numeral)
qed

lemma two_powi_split52: "(2::real) powi e = 2 powi (e - 52) * 2 ^ 52"
proof -
  have "(2::real) powi e = 2 powi ((e - 52) + 52)" by simp
  also have "\<dots> = 2 powi (e - 52) * 2 powi 52"
    by (rule power_int_add) simp
  finally show ?thesis by simp
qed

lemma ulp_pos: "0 < ulp x"
  by (simp add: ulp_def)

lemma exponentOf_ge: "- 1022 \<le> exponentOf x"
  by (simp add: exponentOf_def)

lemma exponentOf_minus: "exponentOf (- x) = exponentOf x"
  by (simp add: exponentOf_def)

lemma binary64_zero: "binary64 0 = 0"
  by (simp add: binary64_def)

lemma binary64_minus: "binary64 (- x) = - binary64 x"
  by (simp add: binary64_def ulp_def exponentOf_minus roundHalfEven_minus)

lemma binary64_nonneg:
  assumes "0 \<le> x"
  shows "0 \<le> binary64 x"
proof (cases "x = 0")
  case True
  then show ?thesis by (simp add: binary64_def)
next
  case False
  have "0 \<le> x / ulp x" using assms ulp_pos[of x] by simp
  then have "roundHalfEven 0 \<le> roundHalfEven (x / ulp x)" by (rule roundHalfEven_mono)
  then have "0 \<le> roundHalfEven (x / ulp x)"
    using roundHalfEven_of_int[of 0] by simp
  then show ?thesis using False ulp_pos[of x] by (simp add: binary64_def)
qed

lemma below_next_binade:
  assumes "0 < x"
  shows "x < 2 powi (exponentOf x + 1)"
proof -
  have "x < 2 powi (\<lfloor>log 2 x\<rfloor> + 1)"
    using floor_log2_iff[OF assms, of "\<lfloor>log 2 x\<rfloor>"] by simp
  also have "\<dots> \<le> 2 powi (exponentOf x + 1)"
    using assms by (intro power_int_increasing) (simp_all add: exponentOf_def)
  finally show ?thesis .
qed

lemma at_least_binade:
  assumes "0 < x" and "- 1022 \<le> \<lfloor>log 2 x\<rfloor>"
  shows "2 powi (exponentOf x) \<le> x"
proof -
  have "exponentOf x = \<lfloor>log 2 x\<rfloor>" using assms by (simp add: exponentOf_def)
  then show ?thesis using floor_log2_iff[OF assms(1), of "\<lfloor>log 2 x\<rfloor>"] by simp
qed

lemma significand_le:
  assumes "0 < x"
  shows "roundHalfEven (x / ulp x) \<le> 2 ^ 53"
proof -
  have "x \<le> ulp x * 2 ^ 53"
    using below_next_binade[OF assms] two_powi_split[of "exponentOf x"]
    by (simp add: ulp_def)
  then have "x / ulp x \<le> 2 ^ 53"
    using ulp_pos[of x] by (simp add: pos_divide_le_eq mult.commute)
  then have "roundHalfEven (x / ulp x) \<le> roundHalfEven (of_int (2 ^ 53))"
    by (intro roundHalfEven_mono) simp
  then show ?thesis by (simp only: roundHalfEven_of_int)
qed

lemma significand_ge:
  assumes "0 < x" and "- 1022 \<le> \<lfloor>log 2 x\<rfloor>"
  shows "2 ^ 52 \<le> roundHalfEven (x / ulp x)"
proof -
  have "ulp x * 2 ^ 52 \<le> x"
    using at_least_binade[OF assms] two_powi_split52[of "exponentOf x"]
    by (simp add: ulp_def)
  then have "2 ^ 52 \<le> x / ulp x"
    using ulp_pos[of x] by (simp add: pos_le_divide_eq mult.commute)
  then have "roundHalfEven (of_int (2 ^ 52)) \<le> roundHalfEven (x / ulp x)"
    by (intro roundHalfEven_mono) simp
  then show ?thesis by (simp only: roundHalfEven_of_int)
qed

lemma binary64_le_next_binade:
  assumes "0 < x"
  shows "binary64 x \<le> 2 powi (exponentOf x + 1)"
proof -
  have "real_of_int (roundHalfEven (x / ulp x)) \<le> real_of_int (2 ^ 53)"
    using significand_le[OF assms] by (simp only: of_int_le_iff)
  then have "ulp x * real_of_int (roundHalfEven (x / ulp x)) \<le> ulp x * 2 ^ 53"
    using ulp_pos[of x] by simp
  then show ?thesis
    using assms two_powi_split[of "exponentOf x"] by (simp add: binary64_def ulp_def)
qed

lemma binary64_ge_binade:
  assumes "0 < x" and "- 1022 \<le> \<lfloor>log 2 x\<rfloor>"
  shows "2 powi (exponentOf x) \<le> binary64 x"
proof -
  have "real_of_int (2 ^ 52) \<le> real_of_int (roundHalfEven (x / ulp x))"
    using significand_ge[OF assms] by (simp only: of_int_le_iff)
  then have "ulp x * 2 ^ 52 \<le> ulp x * real_of_int (roundHalfEven (x / ulp x))"
    using ulp_pos[of x] by simp
  then show ?thesis
    using assms two_powi_split52[of "exponentOf x"] by (simp add: binary64_def ulp_def)
qed

lemma binary64_mono_pos:
  assumes "0 < x" and "x \<le> y"
  shows "binary64 x \<le> binary64 y"
proof -
  have ypos: "0 < y" using assms by linarith
  have "log 2 x \<le> log 2 y" using assms by simp
  then have fl: "\<lfloor>log 2 x\<rfloor> \<le> \<lfloor>log 2 y\<rfloor>" by (rule floor_mono)
  then have le: "exponentOf x \<le> exponentOf y"
    using assms ypos by (simp add: exponentOf_def)
  show ?thesis
  proof (cases "exponentOf x = exponentOf y")
    case True
    then have u: "ulp x = ulp y" by (simp add: ulp_def)
    have "x / ulp y \<le> y / ulp y"
      using assms(2) ulp_pos[of y] by (simp add: divide_right_mono)
    then have "roundHalfEven (x / ulp y) \<le> roundHalfEven (y / ulp y)"
      by (rule roundHalfEven_mono)
    then have "ulp y * real_of_int (roundHalfEven (x / ulp y))
                 \<le> ulp y * real_of_int (roundHalfEven (y / ulp y))"
      using ulp_pos[of y] by simp
    then show ?thesis using assms ypos u by (simp add: binary64_def)
  next
    case False
    then have lt: "exponentOf x + 1 \<le> exponentOf y" using le by linarith
    have "- 1022 < exponentOf y" using lt exponentOf_ge[of x] by linarith
    then have norm: "- 1022 \<le> \<lfloor>log 2 y\<rfloor>"
      using ypos by (simp add: exponentOf_def max_def split: if_splits)
    have "binary64 x \<le> 2 powi (exponentOf x + 1)"
      by (rule binary64_le_next_binade[OF assms(1)])
    also have "\<dots> \<le> 2 powi (exponentOf y)"
      using lt by (intro power_int_increasing) simp_all
    also have "\<dots> \<le> binary64 y"
      by (rule binary64_ge_binade[OF ypos norm])
    finally show ?thesis .
  qed
qed


lemma floor_log2_less:
  assumes "0 < x" and "x < 2 powi j"
  shows "\<lfloor>log 2 x\<rfloor> < j"
proof (rule ccontr)
  assume "\<not> \<lfloor>log 2 x\<rfloor> < j"
  then have "j \<le> \<lfloor>log 2 x\<rfloor>" by simp
  then have "(2::real) powi j \<le> 2 powi \<lfloor>log 2 x\<rfloor>"
    by (intro power_int_increasing) simp_all
  also have "\<dots> \<le> x"
    using floor_log2_iff[OF assms(1), of "\<lfloor>log 2 x\<rfloor>"] by simp
  finally show False using assms(2) by simp
qed

lemma binary64_grid:
  assumes "0 < k" and "exponentOf (u * real_of_int k) = e" and "u = 2 powi (e - 52)"
  shows "binary64 (u * real_of_int k) = u * real_of_int k"
proof -
  have upos: "0 < u" using assms(3) by simp
  have "ulp (u * real_of_int k) = u" using assms by (simp add: ulp_def)
  moreover have "u * real_of_int k \<noteq> 0" using upos assms(1) by simp
  moreover have "u * real_of_int k / u = real_of_int k" using upos by simp
  ultimately show ?thesis
    by (simp only: binary64_def roundHalfEven_of_int if_False)
qed

lemma binary64_idem_pos:
  assumes "0 < x"
  shows "binary64 (binary64 x) = binary64 x"
proof -
  define e where "e = exponentOf x"
  define u where "u = ulp x"
  define k where "k = roundHalfEven (x / u)"
  have u: "u = 2 powi (e - 52)" by (simp add: u_def e_def ulp_def)
  have upos: "0 < u" by (simp add: u)
  have r: "binary64 x = u * real_of_int k"
    using assms by (simp add: binary64_def u_def k_def)
  have kle: "k \<le> 2 ^ 53" using significand_le[OF assms] by (simp add: k_def u_def)
  have "0 \<le> binary64 x" using assms by (intro binary64_nonneg) simp
  then have k0: "0 \<le> k" using upos by (simp add: r zero_le_mult_iff)
  have ege: "- 1022 \<le> e" by (simp add: e_def exponentOf_ge)
  consider "k = 0" | "k = 2 ^ 53" | "0 < k" "k < 2 ^ 53" using k0 kle by linarith
  then show ?thesis
  proof cases
    case 1
    then have z: "binary64 x = 0" using r by simp
    have "binary64 0 = 0" by (simp add: binary64_def)
    then show ?thesis by (simp only: z)
  next
    case 2
    have val: "u * real_of_int k = 2 powi (e + 1)"
      using two_powi_split[of e] by (simp add: u 2)
    have pos: "0 < (2::real) powi (e + 1)" by simp
    have "(2::real) powi (e + 1) < 2 powi (e + 1 + 1)"
      by (intro power_int_strict_increasing) simp_all
    then have "\<lfloor>log 2 (2 powi (e + 1))\<rfloor> = e + 1"
      using floor_log2_iff[OF pos, of "e + 1"] by simp
    then have ex: "exponentOf (2 powi (e + 1)) = e + 1"
      using ege by (simp add: exponentOf_def)
    have u2: "2 powi (e + 1) = 2 powi (e + 1 - 52) * real_of_int (2 ^ 52)"
      using two_powi_split52[of "e + 1"] by simp
    have "binary64 (2 powi (e + 1 - 52) * real_of_int (2 ^ 52))
            = 2 powi (e + 1 - 52) * real_of_int (2 ^ 52)"
      by (rule binary64_grid[where e = "e + 1"]) (simp_all only: u2[symmetric] ex, simp)
    then show ?thesis by (simp only: r val u2[symmetric])
  next
    case 3
    have rpos: "0 < u * real_of_int k" using upos 3(1) by simp
    have "exponentOf (u * real_of_int k) = e"
    proof (cases "2 ^ 52 \<le> k")
      case True
      have "u * 2 ^ 52 \<le> u * real_of_int k"
        using upos True by (simp add: of_int_le_iff[of "2 ^ 52" k, simplified])
      then have lo: "2 powi e \<le> u * real_of_int k"
        using two_powi_split52[of e] by (simp add: u)
      have "real_of_int k < real_of_int (2 ^ 53)" using 3(2) by (simp only: of_int_less_iff)
      then have "u * real_of_int k < u * 2 ^ 53" using upos by simp
      then have hi: "u * real_of_int k < 2 powi (e + 1)"
        using two_powi_split[of e] by (simp add: u)
      have "\<lfloor>log 2 (u * real_of_int k)\<rfloor> = e"
        using floor_log2_iff[OF rpos, of e] lo hi by simp
      then show ?thesis using ege by (simp add: exponentOf_def abs_of_pos[OF rpos])
    next
      case False
      have sub: "\<not> - 1022 \<le> \<lfloor>log 2 x\<rfloor>"
        using significand_ge[OF assms] False by (auto simp add: k_def u_def)
      then have e1022: "e = - 1022" using assms by (simp add: e_def exponentOf_def)
      have "real_of_int k < real_of_int (2 ^ 52)" using False by (simp only: of_int_less_iff)
      then have "u * real_of_int k < u * 2 ^ 52" using upos by simp
      then have "u * real_of_int k < 2 powi e"
        using two_powi_split52[of e] by (simp add: u)
      then have "\<lfloor>log 2 (u * real_of_int k)\<rfloor> < e"
        by (rule floor_log2_less[OF rpos])
      then show ?thesis using e1022 by (simp add: exponentOf_def abs_of_pos[OF rpos])
    qed
    then have "binary64 (u * real_of_int k) = u * real_of_int k"
      using 3(1) u by (intro binary64_grid[where e = e])
    then show ?thesis by (simp only: r)
  qed
qed

lemma binary64_mono:
  assumes "x \<le> y"
  shows "binary64 x \<le> binary64 y"
proof -
  consider "0 < x" | "x \<le> 0" "0 \<le> y" | "y < 0" by linarith
  then show ?thesis
  proof cases
    case 1
    then show ?thesis using assms by (rule binary64_mono_pos)
  next
    case 2
    have "0 \<le> binary64 (- x)" using 2(1) by (intro binary64_nonneg) simp
    then have "binary64 x \<le> 0" by (simp add: binary64_minus)
    also have "0 \<le> binary64 y" using 2(2) by (rule binary64_nonneg)
    finally show ?thesis .
  next
    case 3
    then have "0 < - y" and "- y \<le> - x" using assms by simp_all
    then have "binary64 (- y) \<le> binary64 (- x)" by (rule binary64_mono_pos)
    then show ?thesis by (simp add: binary64_minus)
  qed
qed

lemma binary64_idem: "binary64 (binary64 x) = binary64 x"
proof -
  consider "0 < x" | "x = 0" | "x < 0" by linarith
  then show ?thesis
  proof cases
    case 1
    then show ?thesis by (rule binary64_idem_pos)
  next
    case 2
    then show ?thesis by (simp add: binary64_zero)
  next
    case 3
    then have "binary64 (binary64 (- x)) = binary64 (- x)" by (intro binary64_idem_pos) simp
    then show ?thesis by (simp add: binary64_minus)
  qed
qed

lemma binary64_eval:
  assumes "2 powi e \<le> \<bar>x\<bar>" and "\<bar>x\<bar> < 2 powi (e + 1)" and "- 1022 \<le> e"
  shows "binary64 x = 2 powi (e - 52) * of_int (roundHalfEven (x / 2 powi (e - 52)))"
proof -
  have pos: "0 < \<bar>x\<bar>" using assms(1) zero_less_power_int[of "2::real" e] by linarith
  have "\<lfloor>log 2 \<bar>x\<bar>\<rfloor> = e" using floor_log2_iff[OF pos, of e] assms by simp
  then have "exponentOf x = e" using assms(3) by (simp add: exponentOf_def)
  then show ?thesis using pos by (simp add: binary64_def ulp_def)
qed

lemma binary64_negative_arg:
  assumes "binary64 w < 0"
  shows "w < 0"
proof (rule ccontr)
  assume "\<not> w < 0"
  then have "0 \<le> binary64 w" by (intro binary64_nonneg) simp
  with assms show False by simp
qed

lemma offset_covers_minimum:
  assumes "binary64 w < 0"
  shows "\<bar>binary64 w\<bar> \<le> binary64 (\<bar>binary64 w\<bar> + 10)"
proof -
  have w: "0 < - w" using binary64_negative_arg[OF assms] by simp
  have a: "\<bar>binary64 w\<bar> = binary64 (- w)" using assms by (simp add: binary64_minus)
  have pos: "0 < binary64 (- w)" using assms by (simp add: binary64_minus)
  have "binary64 (binary64 (- w)) \<le> binary64 (binary64 (- w) + 10)"
    using pos by (intro binary64_mono_pos) simp_all
  then show ?thesis by (simp only: a binary64_idem_pos[OF w])
qed

subsection \<open>The minimum after the translation\<close>

lemma shifted_minimum:
  assumes "up \<noteq> []"
  shows "Min (snd ` set (map (\<lambda>(x, y). (x, binary64 (y + offsetY))) up))
           = binary64 (Min (snd ` set up) + offsetY)"
proof (rule Min_eqI)
  show "finite (snd ` set (map (\<lambda>(x, y). (x, binary64 (y + offsetY))) up))" by simp
next
  fix v assume "v \<in> snd ` set (map (\<lambda>(x, y). (x, binary64 (y + offsetY))) up)"
  then obtain p where p: "p \<in> set up" "v = binary64 (snd p + offsetY)"
    by (auto simp: split_beta)
  from p(1) have "Min (snd ` set up) \<le> snd p" by (intro Min_le) simp_all
  then have "Min (snd ` set up) + offsetY \<le> snd p + offsetY" by simp
  then show "binary64 (Min (snd ` set up) + offsetY) \<le> v"
    unfolding p(2) by (rule binary64_mono)
next
  have "Min (snd ` set up) \<in> snd ` set up" using assms by (intro Min_in) simp_all
  then obtain p where p: "p \<in> set up" "Min (snd ` set up) = snd p" by auto
  then have "(fst p, binary64 (snd p + offsetY)) \<in> set (map (\<lambda>(x, y). (x, binary64 (y + offsetY))) up)"
    by (auto simp: split_beta intro!: image_eqI[where x = p])
  then show "binary64 (Min (snd ` set up) + offsetY)
               \<in> snd ` set (map (\<lambda>(x, y). (x, binary64 (y + offsetY))) up)"
    unfolding p(2) by force
qed

subsection \<open>Roundings of the example values\<close>

lemma tenth_rounded: "binary64 (1 / 10) = 3602879701896397 / 36028797018963968"
  by (simp add: binary64_eval[of "- 4"] roundHalfEven_def)

lemma tenth_double:
  "binary64 (3602879701896397 / 36028797018963968) = 3602879701896397 / 36028797018963968"
  by (simp add: binary64_eval[of "- 4"] roundHalfEven_def)

lemma three_tenths_rounded:
  "binary64 (10808639105689191 / 36028797018963968) = 1351079888211149 / 4503599627370496"
  by (simp add: binary64_eval[of "- 2"] roundHalfEven_def)

lemma ten_rounded: "binary64 (90071992547409925 / 9007199254740992) = 10"
  by (simp add: binary64_eval[of 3] roundHalfEven_def)

lemma thirty_rounded:
  "binary64 (33776997205278725 / 1125899906842624) = 8444249301319681 / 281474976710656"
  by (simp add: binary64_eval[of 4] roundHalfEven_def)

lemma forty_rounded: "binary64 (11258999068426241 / 281474976710656) = 40"
  by (simp add: binary64_eval[of 5] roundHalfEven_def)

lemma below_ten_double:
  "binary64 (2814749767106559 / 281474976710656) = 2814749767106559 / 281474976710656"
  by (simp add: binary64_eval[of 3] roundHalfEven_def)

lemma e17_double: "binary64 100000000000000000 = 100000000000000000"
  by (simp add: binary64_eval[of 56] roundHalfEven_def)

lemma three_e17_double: "binary64 300000000000000000 = 300000000000000000"
  by (simp add: binary64_eval[of 58] roundHalfEven_def)

lemma e19_double: "binary64 10000000000000000000 = 10000000000000000000"
  by (simp add: binary64_eval[of 63] roundHalfEven_def)

lemma three_e19_double: "binary64 30000000000000000000 = 30000000000000000000"
  by (simp add: binary64_eval[of 64] roundHalfEven_def)

lemma margin_absorbed: "binary64 30000000000000000010 = 30000000000000000000"
  by (simp add: binary64_eval[of 64] roundHalfEven_def)

lemma two_hundredth_rounded: "binary64 (1 / 200) = 5764607523034235 / 1152921504606846976"
  by (simp add: binary64_eval[of "- 8"] roundHalfEven_def)

lemma two_hundredth_double:
  "binary64 (5764607523034235 / 1152921504606846976) = 5764607523034235 / 1152921504606846976"
  by (simp add: binary64_eval[of "- 8"] roundHalfEven_def)

lemma fiftieth_double:
  "binary64 (5764607523034235 / 288230376151711744) = 5764607523034235 / 288230376151711744"
  by (simp add: binary64_eval[of "- 6"] roundHalfEven_def)

lemma hundredth_double:
  "binary64 (5764607523034235 / 576460752303423488) = 5764607523034235 / 576460752303423488"
  by (simp add: binary64_eval[of "- 7"] roundHalfEven_def)

lemma half_rounded: "binary64 (144115188075855875 / 288230376151711744) = 1 / 2"
  by (simp add: binary64_eval[of "- 1"] roundHalfEven_def)

lemma one_rounded: "binary64 (144115188075855875 / 144115188075855872) = 1"
  by (simp add: binary64_eval[of 0] roundHalfEven_def)

lemma two_rounded: "binary64 (144115188075855875 / 72057594037927936) = 2"
  by (simp add: binary64_eval[of 1] roundHalfEven_def)

lemma ten_double: "binary64 10 = 10"
  by (simp add: binary64_eval[of 3] roundHalfEven_def)

lemma twelve_double: "binary64 12 = 12"
  by (simp add: binary64_eval[of 3] roundHalfEven_def)

section \<open>The properties\<close>

subsection \<open>C1: the scale factor\<close>

text \<open>
  C1.  For a non-empty polygon and positive image dimensions, the scaled path is the
  input with the x and the y coordinate of every point multiplied by one factor: the
  target dimension divided by the image's pixel width when the axis is WIDTH, by the
  image's pixel height when it is HEIGHT.  The factor is a function of the options and
  the image size alone; the polygon's own extent does not enter it.
\<close>

theorem scale_factor_from_image_dimension:
  assumes "path \<noteq> []" and "0 < imageWidth" and "0 < imageHeight"
  shows "scaledPath opts imageWidth imageHeight path =
           map (\<lambda>(x, y).
                  (x * (case opt_dimensionControl opts of
                          Width \<Rightarrow> opt_width opts / real imageWidth
                        | Height \<Rightarrow> opt_height opts / real imageHeight),
                   y * (case opt_dimensionControl opts of
                          Width \<Rightarrow> opt_width opts / real imageWidth
                        | Height \<Rightarrow> opt_height opts / real imageHeight))) path"
  using assms
  by (cases "opt_dimensionControl opts") (simp_all add: scaledPath_def scaleContour_def Let_def)

theorem scale_factor_from_image_dimension_witness:
  "scaledPath \<lparr>opt_threshold = 128, opt_simplify = 1 / 10, opt_width = 3, opt_height = 1,
               opt_dimensionControl = Height\<rparr> 6 4 [(2, -4), (6, 0)]
     = [(1 / 2, -1), (3 / 2, 0)]"
  using scale_factor_from_image_dimension
    [of "[(2, -4), (6, 0)]" 6 4
        "\<lparr>opt_threshold = 128, opt_simplify = 1 / 10, opt_width = 3, opt_height = 1,
          opt_dimensionControl = Height\<rparr>"]
  by simp

subsection \<open>C2: the trace loop terminates\<close>

text \<open>
  C2.  On a grid of width W and height H the trace loop of \<^verbatim>\<open>findSingleOuterBoundary\<close>
  and of \<^verbatim>\<open>findPerfectContour\<close> returns (the loop is a total function), and its counter
  of completed passes is at most 2 x W x H; in general the counter never exceeds the
  cap it is started with.  The loop stops at once in a state with no unvisited
  foreground neighbour, and in a state where the pixel found is the start pixel and the
  polygon has more than 3 points.  Whenever it returns, the cap is reached or the next
  pass would be a \<^verbatim>\<open>break\<close>.
\<close>

theorem trace_loop_terminates:
  assumes "wf_grid pixels width height"
  shows "iterations (outerBoundaryTrace pixels width height start) \<le> 2 * width * height
       \<and> iterations (perfectContourTrace pixels width height) \<le> 2 * width * height
       \<and> (iterations s \<le> maxIterations \<longrightarrow>
            iterations (traceLoop onEdge pixels width height start maxIterations s)
              \<le> maxIterations)
       \<and> (noUnvisitedForeground pixels width height s \<longrightarrow>
            traceLoop onEdge pixels width height start maxIterations s = s)
       \<and> (lookForNext onEdge pixels width height s [0..<8] = Some (fst start, snd start, d)
            \<and> length (boundary s) > 3 \<longrightarrow>
            traceLoop onEdge pixels width height start maxIterations s = s)
       \<and> (maxIterations
             \<le> iterations (traceLoop onEdge pixels width height start maxIterations s)
          \<or> traceStep onEdge pixels width height start
               (traceLoop onEdge pixels width height start maxIterations s) = None)"
proof (intro conjI impI)
  have "iterations (outerBoundaryTrace pixels width height start) \<le> width * height * 2"
    unfolding outerBoundaryTrace_def
    by (rule traceLoop_iterations) (simp add: initialState_def)
  then show "iterations (outerBoundaryTrace pixels width height start) \<le> 2 * width * height"
    by (simp add: mult.commute mult.left_commute)
next
  let ?bp = "findBoundaryPixels pixels width height"
  have "iterations (perfectContourTrace pixels width height) \<le> length ?bp * 2"
    unfolding perfectContourTrace_def Let_def
    by (rule traceLoop_iterations) (simp add: initialState_def)
  also have "\<dots> \<le> (width * height) * 2"
    using length_findBoundaryPixels[of pixels width height] by simp
  finally show "iterations (perfectContourTrace pixels width height) \<le> 2 * width * height"
    by (simp add: mult.commute mult.left_commute)
next
  assume "iterations s \<le> maxIterations"
  then show "iterations (traceLoop onEdge pixels width height start maxIterations s)
              \<le> maxIterations"
    by (rule traceLoop_iterations)
next
  assume "noUnvisitedForeground pixels width height s"
  then have "traceStep onEdge pixels width height start s = None"
    by (simp add: traceStep_def lookForNext_none)
  then show "traceLoop onEdge pixels width height start maxIterations s = s"
    by (subst traceLoop.simps) simp
next
  assume "lookForNext onEdge pixels width height s [0..<8] = Some (fst start, snd start, d)
            \<and> length (boundary s) > 3"
  then have "traceStep onEdge pixels width height start s = None"
    by (simp add: traceStep_def)
  then show "traceLoop onEdge pixels width height start maxIterations s = s"
    by (subst traceLoop.simps) simp
next
  show "maxIterations
             \<le> iterations (traceLoop onEdge pixels width height start maxIterations s)
          \<or> traceStep onEdge pixels width height start
               (traceLoop onEdge pixels width height start maxIterations s) = None"
    by (rule traceLoop_stopped)
qed

theorem trace_loop_terminates_witness:
  "wf_grid solid3 3 3
   \<and> iterations (outerBoundaryTrace solid3 3 3 (0, 0)) \<le> 2 * 3 * 3
   \<and> iterations (perfectContourTrace solid3 3 3) \<le> 2 * 3 * 3
   \<and> noUnvisitedForeground [[1]] 1 1 (initialState (0, 0))
   \<and> traceLoop (hasWhiteNeighbor [[1]] 1 1) [[1]] 1 1 (0, 0) 2 (initialState (0, 0))
       = initialState (0, 0)
   \<and> lookForNext (hasWhiteNeighbor solid3 3 3) solid3 3 3 closingState [0..<8]
       = Some (0, 0, 2)
   \<and> traceLoop (hasWhiteNeighbor solid3 3 3) solid3 3 3 (0, 0) 18 closingState
       = closingState"
proof -
  have w3: "wf_grid solid3 3 3" by (simp add: wf_grid_def solid3_def)
  have w1: "wf_grid [[1]] 1 1" by (simp add: wf_grid_def)
  have n: "noUnvisitedForeground [[1]] 1 1 (initialState (0, 0))"
    by (simp add: noUnvisitedForeground_def initialState_def directions_def inImage_def)
  have l: "lookForNext (hasWhiteNeighbor solid3 3 3) solid3 3 3 closingState [0..<8]
             = Some (fst (0, 0), snd (0, 0), 2)
           \<and> length (boundary closingState) > 3"
    by (simp add: closingState_def solid3_def pixel_def inImage_def hasWhiteNeighbor_def
          directions_def upt_rec Let_def)
  from trace_loop_terminates[OF w3, where start = "(0, 0)"]
  have a: "iterations (outerBoundaryTrace solid3 3 3 (0, 0)) \<le> 2 * 3 * 3"
    "iterations (perfectContourTrace solid3 3 3) \<le> 2 * 3 * 3" by blast+
  from trace_loop_terminates[OF w1, where s = "initialState (0, 0)"
      and onEdge = "hasWhiteNeighbor [[1]] 1 1" and start = "(0, 0)" and maxIterations = 2] n
  have b: "traceLoop (hasWhiteNeighbor [[1]] 1 1) [[1]] 1 1 (0, 0) 2 (initialState (0, 0))
             = initialState (0, 0)" by blast
  from trace_loop_terminates[OF w3, where s = closingState
      and onEdge = "hasWhiteNeighbor solid3 3 3" and start = "(0, 0)" and maxIterations = 18
      and d = 2] l
  have c: "traceLoop (hasWhiteNeighbor solid3 3 3) solid3 3 3 (0, 0) 18 closingState
             = closingState" by blast
  from l have l': "lookForNext (hasWhiteNeighbor solid3 3 3) solid3 3 3 closingState [0..<8]
             = Some (0, 0, 2)" by simp
  from w3 a n b l' c show ?thesis by blast
qed

subsection \<open>C3: the tolerance of the simplification stage\<close>

text \<open>
  C3 as stated fails: the stage multiplies the setting by 0.3 at the call
  (\<^verbatim>\<open>simplify * 0.3\<close>, line 578) and again inside \<^verbatim>\<open>simplifyContour\<close>
  (\<^verbatim>\<open>tolerance * 0.3\<close>, line 608).  With \<^verbatim>\<open>simplify = 1\<close> the stage keeps the middle
  point of the path below, whose squared distance from the chord is 0.16, while
  Douglas-Peucker with the tolerance \<open>max (1 * 0.3) 0.05\<close> drops it.
\<close>

theorem simplify_tolerance_counterexample:
  "simplifiedPath 1 [(0, 0), (1, 2 / 5), (2, 0)] = Some [(0, 0), (1, 2 / 5), (2, 0)]
   \<and> douglasPeucker [(0, 0), (1, 2 / 5), (2, 0)] (max (1 * (3 / 10)) (5 / 100))
       = Some [(0, 0), (2, 0)]"
  by (simp add: simplifiedPath_def simplifyContour_def douglasPeucker.simps
        getPerpendicularDistance_def quotient_def Let_def)

text \<open>
  C3, amended.  For every path and every setting, the simplification stage returns the
  path unchanged when the setting is 0 or the path has at most 2 points, and otherwise
  runs Douglas-Peucker with the tolerance \<open>max (simplify * 0.09) 0.05\<close>.
\<close>

theorem simplify_effective_tolerance:
  "simplifiedPath simplifySetting path =
     (if simplifySetting = 0 \<or> length path \<le> 2 then Some path
      else douglasPeucker path (max (simplifySetting * (9 / 100)) (5 / 100)))"
proof -
  have "simplifySetting * (3 / 10) * (3 / 10) = simplifySetting * (9 / 100)" by simp
  then show ?thesis
    unfolding simplifiedPath_def simplifyContour_def Let_def by (simp only: if_not_P) auto
qed

theorem simplify_effective_tolerance_witness:
  "simplifiedPath (1 / 2) [(0, 0), (1, 1 / 4), (2, 0)]
     = douglasPeucker [(0, 0), (1, 1 / 4), (2, 0)] (5 / 100)"
  using simplify_effective_tolerance[of "1 / 2" "[(0, 0), (1, 1 / 4), (2, 0)]"]
  by simp

subsection \<open>C4: a grid without foreground\<close>

text \<open>
  C4.  For a grid of the given width and height that is empty (width or height 0) or
  has no foreground cell, \<^verbatim>\<open>findSingleOuterBoundary\<close> returns the empty polygon.
\<close>

theorem no_foreground_gives_empty_polygon:
  assumes "wf_grid pixels width height"
    and "width = 0 \<or> height = 0 \<or> list_all (\<lambda>row. list_all (\<lambda>v. v \<noteq> 1) row) pixels"
  shows "findSingleOuterBoundary pixels width height = []"
proof -
  have "pixel pixels (int x) (int y) \<noteq> Some 1" if "y < height" "x < width" for x y
  proof -
    from that assms(2) have all: "list_all (\<lambda>row. list_all (\<lambda>v. v \<noteq> 1) row) pixels" by auto
    show ?thesis
    proof (cases "y < length pixels \<and> x < length (pixels ! y)")
      case True
      with all have "pixels ! y ! x \<noteq> 1" by (simp add: list_all_length)
      with True show ?thesis by (simp add: pixel_def)
    next
      case False
      then show ?thesis by (auto simp: pixel_def)
    qed
  qed
  then have "findStart pixels width height = None"
    unfolding findStart_def by (intro scanRows_none) simp
  then show ?thesis by (simp add: findSingleOuterBoundary_def)
qed

theorem no_foreground_gives_empty_polygon_witness:
  "findSingleOuterBoundary [[0, 0], [0, 0]] 2 2 = []
   \<and> findSingleOuterBoundary [] 5 0 = []"
  using no_foreground_gives_empty_polygon[of "[[0, 0], [0, 0]]" 2 2]
        no_foreground_gives_empty_polygon[of "[]" 5 0]
  by (simp add: wf_grid_def)

subsection \<open>C5: emitting the empty polygon\<close>

text \<open>
  C5.  Adding the empty polygon to a new writer and finishing the document gives the
  fixed scaffold: the HEADER section, an ENTITIES section with no entity (no line
  \<^verbatim>\<open>LINE\<close> at all), and \<^verbatim>\<open>EOF\<close> as the last line.  The writer has no failing operation,
  so the result is a value for every number format and every option record.
\<close>

theorem empty_polygon_gives_valid_empty_document:
  "finish (addPolyline numberToString newWriter [] options)
     = [''0'', ''SECTION'', ''2'', ''HEADER'', ''0'', ''ENDSEC'',
        ''0'', ''SECTION'', ''2'', ''ENTITIES'', ''0'', ''ENDSEC'',
        ''0'', ''EOF'']
   \<and> count_list (finish (addPolyline numberToString newWriter [] options)) ''LINE'' = 0
   \<and> last (finish (addPolyline numberToString newWriter [] options)) = ''EOF''
   \<and> toString (addPolyline numberToString newWriter [] options)
       = joinLines [''0'', ''SECTION'', ''2'', ''HEADER'', ''0'', ''ENDSEC'',
                    ''0'', ''SECTION'', ''2'', ''ENTITIES'', ''0'', ''ENDSEC'',
                    ''0'', ''EOF'']"
  by (simp add: addPolyline_def newWriter_def finish_def toString_def)

theorem empty_polygon_gives_valid_empty_document_witness:
  "toString (addPolyline (\<lambda>v. ''1'') newWriter [] \<lparr>layer = ''0'', closed = True\<rparr>)
     = ''0'' @ [CHR 0x0A] @ ''SECTION'' @ [CHR 0x0A] @ ''2'' @ [CHR 0x0A] @ ''HEADER''
       @ [CHR 0x0A] @ ''0'' @ [CHR 0x0A] @ ''ENDSEC'' @ [CHR 0x0A] @ ''0'' @ [CHR 0x0A]
       @ ''SECTION'' @ [CHR 0x0A] @ ''2'' @ [CHR 0x0A] @ ''ENTITIES'' @ [CHR 0x0A] @ ''0''
       @ [CHR 0x0A] @ ''ENDSEC'' @ [CHR 0x0A] @ ''0'' @ [CHR 0x0A] @ ''EOF''"
  using empty_polygon_gives_valid_empty_document
    [of "\<lambda>v. ''1''" "\<lparr>layer = ''0'', closed = True\<rparr>"]
  by simp

subsection \<open>C6: the point count and the simplify setting\<close>

text \<open>
  C6 as stated fails for the refinement chain of the third variant.  On the outline of
  a square (52 points) the setting 0.01 makes the point reduction drop one point of a
  straight side, and merging leaves the start point and the four corners: 5 points.
  With the setting 0.03 the reduction also drops the corner \<open>(13, -13)\<close>; the cut corner
  becomes a diagonal step, whose two ends both survive merging, snapping and duplicate
  removal: 6 points.
\<close>

theorem refined_point_count_counterexample:
  "finalPath_v3 (1 / 100) squareOutline = [(1, 0), (13, 0), (13, -13), (0, -13), (0, 0)]
   \<and> finalPath_v3 (3 / 100) squareOutline
       = [(1, 0), (13, 0), (13, -12), (12, -13), (0, -13), (0, 0)]
   \<and> length (finalPath_v3 (1 / 100) squareOutline)
       < length (finalPath_v3 (3 / 100) squareOutline)"
  unfolding finalPath_v3_def Let_def dedup_square reduce_1 reduce_3 merge_reduced merge_cut
    straighten_reduced straighten_cut final_reduced final_cut
  by simp

text \<open>
  C6, amended.  For every path and settings \<open>0 \<le> s1 \<le> s2\<close>, each of the two stages that
  read the setting returns at most as many points for \<open>s2\<close> as for \<open>s1\<close>: the
  simplification stage (which returns a path for both settings) and
  \<^verbatim>\<open>adaptivePointReduction\<close>.
\<close>

theorem simplify_stages_monotone:
  assumes "0 \<le> s1" and "s1 \<le> s2"
  shows "(\<exists>out1 out2. simplifiedPath s1 path = Some out1 \<and> simplifiedPath s2 path = Some out2
            \<and> length out2 \<le> length out1)
       \<and> length (adaptivePointReduction path s2) \<le> length (adaptivePointReduction path s1)"
proof
  let ?t1 = "max (s1 * (3 / 10) * (3 / 10)) (5 / 100)"
  let ?t2 = "max (s2 * (3 / 10) * (3 / 10)) (5 / 100)"
  have t: "0 \<le> ?t1" "?t1 \<le> ?t2" using assms by (simp_all add: max_def)
  from t have t2: "0 \<le> ?t2" by linarith
  show "\<exists>out1 out2. simplifiedPath s1 path = Some out1 \<and> simplifiedPath s2 path = Some out2
            \<and> length out2 \<le> length out1"
  proof (cases "length path \<le> 2")
    case True
    then show ?thesis by (simp add: simplifiedPath_def simplifyContour_def)
  next
    case long: False
    from douglasPeucker_total[OF t(1), of path] obtain o1 where
      o1: "douglasPeucker path ?t1 = Some o1" "length o1 \<le> length path" by blast
    from douglasPeucker_total[OF t2, of path] obtain o2 where
      o2: "douglasPeucker path ?t2 = Some o2" "length o2 \<le> length path" by blast
    have m: "length o2 \<le> length o1"
      using douglasPeucker_mono[OF t o1(1) o2(1)] .
    show ?thesis
    proof (cases "s1 = 0")
      case True
      with long o2 show ?thesis
        by (cases "s2 = 0") (simp_all add: simplifiedPath_def simplifyContour_def)
    next
      case False
      with assms have "s2 \<noteq> 0" by simp
      with False long o1 o2 m show ?thesis
        by (simp add: simplifiedPath_def simplifyContour_def)
    qed
  qed
next
  show "length (adaptivePointReduction path s2) \<le> length (adaptivePointReduction path s1)"
    using assms(2) by (rule adaptivePointReduction_mono)
qed

theorem simplify_stages_monotone_witness:
  "(\<exists>out1 out2. simplifiedPath 0 [(0, 0), (1, 2 / 5), (2, 0)] = Some out1
        \<and> simplifiedPath 1 [(0, 0), (1, 2 / 5), (2, 0)] = Some out2
        \<and> length out2 \<le> length out1)
   \<and> length (adaptivePointReduction squareOutline (3 / 100))
       \<le> length (adaptivePointReduction squareOutline (1 / 100))"
proof -
  have "(0::real) \<le> 0" "(0::real) \<le> 1" "(0::real) \<le> 1 / 100" "(1::real) / 100 \<le> 3 / 100"
    by simp_all
  from simplify_stages_monotone[OF this(1,2), of "[(0, 0), (1, 2 / 5), (2, 0)]"]
       simplify_stages_monotone[OF this(3,4), of squareOutline]
  show ?thesis by blast
qed

subsection \<open>C7: one step of the trace\<close>

text \<open>
  C7 as stated fails for \<^verbatim>\<open>findSingleOuterBoundary\<close>: a neighbour is selected only if it
  also passes the boundary test of lines 213-231.  In the 3 x 3 image that is all
  foreground, after the first step (from \<open>(0, 0)\<close> to \<open>(1, 0)\<close>, new direction South) the
  first unvisited foreground neighbour in scan order is the centre \<open>(1, 1)\<close>, but the
  centre has no background neighbour and the loop selects \<open>(2, 1)\<close>.
\<close>

theorem first_unvisited_foreground_counterexample:
  "traceStep (hasWhiteNeighbor solid3 3 3) solid3 3 3 (0, 0) (initialState (0, 0))
     = Some afterFirstStep
   \<and> firstUnvisitedForeground solid3 3 3 afterFirstStep = Some (1, 1, 4)
   \<and> lookForNext (hasWhiteNeighbor solid3 3 3) solid3 3 3 afterFirstStep [0..<8]
       = Some (2, 1, 5)"
  by (simp add: traceStep_def initialState_def afterFirstStep_def firstUnvisitedForeground_def
        scanOrder_def solid3_def pixel_def inImage_def hasWhiteNeighbor_def directions_def
        upt_rec Let_def)

text \<open>
  C7, amended.  In every state the eight neighbours are tested in the order East, NE,
  North, NW, West, SW, South, SE rotated to start at the current direction, and the one
  selected is the first that lies in the image, is foreground, is unvisited and has a
  background cell or the image border in its 3 x 3 neighbourhood.  Unless the selected
  pixel \<open>(x, y)\<close> is the start pixel and the polygon has more than 3 points (the loop
  then stops), the step appends \<open>(x, - y)\<close> to the polygon, marks \<open>(x, y)\<close> visited, moves
  to it, counts the pass, and sets the direction to \<open>(dirIndex + 6) mod 8\<close> for the index
  \<open>dirIndex\<close> of the direction it was found in.
\<close>

theorem trace_step_selects_first_edge_neighbour:
  assumes "wf_grid pixels width height"
  shows "map (\<lambda>(x, y, d). (x - currentX s, y - currentY s)) (scanOrder s)
           = rotate (direction s) directions
       \<and> lookForNext (hasWhiteNeighbor pixels width height) pixels width height s [0..<8]
           = find (\<lambda>(x, y, d). inImage width height x y \<and> pixel pixels x y = Some 1
                      \<and> (x, y) \<notin> visited s \<and> hasWhiteNeighbor pixels width height x y)
               (scanOrder s)
       \<and> (lookForNext (hasWhiteNeighbor pixels width height) pixels width height s [0..<8]
             = Some (x, y, d)
           \<and> \<not> ((x, y) = start \<and> 3 < length (boundary s)) \<longrightarrow>
           traceStep (hasWhiteNeighbor pixels width height) pixels width height start s
             = Some (s\<lparr>boundary := boundary s @ [(x, - y)],
                       visited := insert (x, y) (visited s),
                       currentX := x, currentY := y,
                       direction := d,
                       iterations := iterations s + 1\<rparr>)
           \<and> (\<exists>dirIndex < 8. (x - currentX s, y - currentY s) = directions ! dirIndex
                  \<and> d = (dirIndex + 6) mod 8))"
proof (intro conjI impI)
  show "map (\<lambda>(x, y, d). (x - currentX s, y - currentY s)) (scanOrder s)
           = rotate (direction s) directions"
    by (rule scanOrder_offsets)
next
  show "lookForNext (hasWhiteNeighbor pixels width height) pixels width height s [0..<8]
           = find (\<lambda>(x, y, d). inImage width height x y \<and> pixel pixels x y = Some 1
                      \<and> (x, y) \<notin> visited s \<and> hasWhiteNeighbor pixels width height x y)
               (scanOrder s)"
    unfolding scanOrder_def by (rule lookForNext_find)
next
  assume a: "lookForNext (hasWhiteNeighbor pixels width height) pixels width height s [0..<8]
             = Some (x, y, d) \<and> \<not> ((x, y) = start \<and> 3 < length (boundary s))"
  then show "traceStep (hasWhiteNeighbor pixels width height) pixels width height start s
             = Some (s\<lparr>boundary := boundary s @ [(x, - y)],
                       visited := insert (x, y) (visited s),
                       currentX := x, currentY := y,
                       direction := d,
                       iterations := iterations s + 1\<rparr>)"
    by (cases start) (auto simp: traceStep_def)
next
  assume a: "lookForNext (hasWhiteNeighbor pixels width height) pixels width height s [0..<8]
             = Some (x, y, d) \<and> \<not> ((x, y) = start \<and> 3 < length (boundary s))"
  then have "find (\<lambda>(x, y, d). inImage width height x y \<and> pixel pixels x y = Some 1
                      \<and> (x, y) \<notin> visited s \<and> hasWhiteNeighbor pixels width height x y)
               (scanOrder s) = Some (x, y, d)"
    by (simp only: lookForNext_find scanOrder_def)
  then have "(x, y, d) \<in> set (scanOrder s)"
    by (rule find_Some_mem)
  then obtain i where "x = currentX s + fst (directions ! ((direction s + i) mod 8))"
    "y = currentY s + snd (directions ! ((direction s + i) mod 8))"
    "d = ((direction s + i) mod 8 + 6) mod 8"
    unfolding scanOrder_def Let_def by (auto simp del: upt_Suc)
  then have "(direction s + i) mod 8 < 8
      \<and> (x - currentX s, y - currentY s) = directions ! ((direction s + i) mod 8)
      \<and> d = ((direction s + i) mod 8 + 6) mod 8"
    by simp
  then show "\<exists>dirIndex < 8. (x - currentX s, y - currentY s) = directions ! dirIndex
                  \<and> d = (dirIndex + 6) mod 8"
    by blast
qed

theorem trace_step_selects_first_edge_neighbour_witness:
  "wf_grid solid3 3 3
   \<and> lookForNext (hasWhiteNeighbor solid3 3 3) solid3 3 3 (initialState (0, 0)) [0..<8]
       = Some (1, 0, 6)
   \<and> traceStep (hasWhiteNeighbor solid3 3 3) solid3 3 3 (0, 0) (initialState (0, 0))
       = Some ((initialState (0, 0))\<lparr>boundary := boundary (initialState (0, 0)) @ [(1, - 0)],
                 visited := insert (1, 0) (visited (initialState (0, 0))),
                 currentX := 1, currentY := 0, direction := 6,
                 iterations := iterations (initialState (0, 0)) + 1\<rparr>)"
proof -
  have w: "wf_grid solid3 3 3" by (simp add: wf_grid_def solid3_def)
  have l: "lookForNext (hasWhiteNeighbor solid3 3 3) solid3 3 3 (initialState (0, 0)) [0..<8]
             = Some (1, 0, 6)"
    by (simp add: initialState_def solid3_def pixel_def inImage_def hasWhiteNeighbor_def
          directions_def upt_rec Let_def)
  have ne: "\<not> (((1::int), (0::int)) = (0, 0)
              \<and> 3 < length (boundary (initialState (0, 0))))" by simp
  from trace_step_selects_first_edge_neighbour[OF w, where s = "initialState (0, 0)"
      and x = 1 and y = 0 and d = 6 and start = "(0, 0)"] l ne
  have "traceStep (hasWhiteNeighbor solid3 3 3) solid3 3 3 (0, 0) (initialState (0, 0))
       = Some ((initialState (0, 0))\<lparr>boundary := boundary (initialState (0, 0)) @ [(1, - 0)],
                 visited := insert (1, 0) (visited (initialState (0, 0))),
                 currentX := 1, currentY := 0, direction := 6,
                 iterations := iterations (initialState (0, 0)) + 1\<rparr>)"
    by blast
  with w l show ?thesis by blast
qed

subsection \<open>C8: the translation to non-negative Y\<close>

text \<open>
  C8 as stated fails in both scalers.  In the \<^verbatim>\<open>scaleContour\<close> of lines 3468-3539 the
  offset and the sums are rounded to doubles.  For the polygon \<^verbatim>\<open>[[1, -3]]\<close>, the target
  1 and 10 pixels the scaled Y is \<open>- (30 + 1 / 2 ^ 48)\<close> (-30.000000000000004), the offset
  \<open>40 + 1 / 2 ^ 48\<close> lies halfway between two doubles and rounds to 40, and the result
  has the Y \<open>10 - 1 / 2 ^ 48\<close> (9.999999999999996), below the margin 10.  For the target
  \<open>10 ^ 18\<close> the scaled Y is \<open>- 3 * 10 ^ 19\<close>, the margin is lost when the offset is rounded,
  and the result has the Y 0.  The \<^verbatim>\<open>scaleContour\<close> of lines 331-375 has no translation
  step: a polygon with a negative Y keeps it.
\<close>

theorem scaler_margin_counterexample:
  "scaleContour_v3 [(1, -3)] 1 10 Width = [(10, 10 - 1 / 2 ^ 48)]
   \<and> Min (snd ` set (scaleContour_v3 [(1, -3)] 1 10 Width)) < 10
   \<and> scaleContour_v3 [(1, -3)] (10 ^ 18) 10 Width = [(10 ^ 19, 0)]
   \<and> scaleContour [(0, -1), (1, 0)] 1 1 Width = [(0, -1), (1, 0)]
   \<and> Min (snd ` set (scaleContour [(0, -1), (1, 0)] 1 1 Width)) = -1"
proof -
  have a: "scaleContour_v3 [(1, -3)] 1 10 Width = [(10, 10 - 1 / 2 ^ 48)]"
    by (simp add: scaleContour_v3_def Let_def binary64_minus tenth_rounded tenth_double
          three_tenths_rounded ten_rounded thirty_rounded forty_rounded below_ten_double)
  have b: "scaleContour_v3 [(1, -3)] (10 ^ 18) 10 Width = [(10 ^ 19, 0)]"
    by (simp add: scaleContour_v3_def Let_def binary64_minus binary64_zero e17_double
          three_e17_double e19_double three_e19_double margin_absorbed)
  have c: "scaleContour [(0, -1), (1, 0)] 1 1 Width = [(0, -1), (1, 0)]"
    by (simp add: scaleContour_def)
  show ?thesis
    unfolding a b c by simp
qed

text \<open>
  C8, amended.  In the \<^verbatim>\<open>scaleContour\<close> of lines 3468-3539, for a non-empty polygon and
  as long as no number it computes overflows: when the minimum Y of the scaled polygon
  (after the scale factor and the factor 100) is negative, the result is the scaled
  polygon with the Y of every point increased by \<open>offsetY\<close>, the double nearest to the
  absolute value of that minimum plus 10, each sum rounded to a double.  The minimum Y
  of the result is the double nearest to the minimum plus \<open>offsetY\<close>.  It is never
  negative, and it is the margin 10 when the absolute value of the minimum plus 10 is
  itself a double.  (The \<^verbatim>\<open>scaleContour\<close> of lines 331-375 does not translate.)

  The statement is about the scaler for whatever polygon and target it is given.  In
  the third variant's own chain the traced points carry the pixel row as their Y (lines
  3093 and 3149), so that there a negative scaled Y comes from a negative target
  dimension, which the POST handler lets through (lines 4184-4185).
\<close>

theorem shifted_polygon_nonnegative:
  assumes "contour \<noteq> []" and "imageDim \<noteq> 0"
    and "s = binary64 (target / imageDim)"
    and "scaled = map (\<lambda>(x, y). (binary64 (x * s), binary64 (y * s))) contour"
    and "up = map (\<lambda>(x, y). (binary64 (x * 100), binary64 (y * 100))) scaled"
    and "Min (snd ` set up) < 0"
    and "offsetY = binary64 (\<bar>Min (snd ` set up)\<bar> + 10)"
    and "out = map (\<lambda>(x, y). (x, binary64 (y + offsetY))) up"
    and "finiteDouble s" and "finitePoints scaled" and "finitePoints up"
    and "finiteDouble offsetY" and "finitePoints out"
  shows "scaleContour_v3 contour target imageDim dimCtl = out
       \<and> Min (snd ` set out) = binary64 (Min (snd ` set up) + offsetY)
       \<and> 0 \<le> Min (snd ` set out)
       \<and> (offsetY = \<bar>Min (snd ` set up)\<bar> + 10 \<longrightarrow> Min (snd ` set out) = 10)"
proof -
  let ?m = "Min (snd ` set up)"
  from assms(1,4,5) have ne: "up \<noteq> []" by simp
  have "scaleContour_v3 contour target imageDim dimCtl
          = (case minYLoop up None of
               None \<Rightarrow> up
             | Some minY \<Rightarrow>
                 if minY < 0
                 then map (\<lambda>(x, y). (x, binary64 (y + binary64 (\<bar>minY\<bar> + 10)))) up
                 else up)"
    using assms(1) unfolding scaleContour_v3_def Let_def assms(3,4,5) by simp
  then have eq: "scaleContour_v3 contour target imageDim dimCtl = out"
    using assms(6) by (simp add: minYLoop_None[OF ne] assms(7,8))
  have mn: "Min (snd ` set out) = binary64 (?m + offsetY)"
    unfolding assms(8) by (rule shifted_minimum[OF ne])
  have "?m \<in> snd ` set up" using ne by (intro Min_in) simp_all
  then obtain w where w: "?m = binary64 w"
    unfolding assms(5) by (auto simp: split_beta)
  have "\<bar>?m\<bar> \<le> offsetY"
    using offset_covers_minimum[of w] assms(6) by (simp only: w[symmetric] assms(7))
  then have "0 \<le> ?m + offsetY" by linarith
  then have nonneg: "0 \<le> binary64 (?m + offsetY)" by (rule binary64_nonneg)
  have "binary64 (?m + offsetY) = 10" if "offsetY = \<bar>?m\<bar> + 10"
  proof -
    from that assms(6) have "?m + offsetY = 10" by simp
    then show ?thesis by (simp only: ten_double)
  qed
  with eq mn nonneg show ?thesis by simp
qed

theorem shifted_polygon_nonnegative_witness:
  "scaleContour_v3 [(1, 4), (2, 0)] (- 1) 200 Width = [(- (1 / 2), 10), (- 1, 12)]
   \<and> Min (snd ` set [(- (1 / 2) :: real, 10 :: real), (- 1, 12)]) = 10"
proof -
  have m: "Min (snd ` set [(- (1 / 2) :: real, - 2 :: real), (- 1, 0)]) = - 2" by simp
  from shifted_polygon_nonnegative
         [where contour = "[(1, 4), (2, 0)]" and target = "- 1" and imageDim = 200
            and s = "- (5764607523034235 / 1152921504606846976)"
            and scaled = "[(- (5764607523034235 / 1152921504606846976),
                            - (5764607523034235 / 288230376151711744)),
                           (- (5764607523034235 / 576460752303423488), 0)]"
            and up = "[(- (1 / 2), - 2), (- 1, 0)]" and offsetY = 12
            and out = "[(- (1 / 2), 10), (- 1, 12)]" and dimCtl = Width]
  show ?thesis
    by (simp add: m binary64_minus binary64_zero two_hundredth_rounded two_hundredth_double
          fiftieth_double hundredth_double half_rounded one_rounded two_rounded
          twelve_double ten_double finiteDouble_def finitePoints_def maxValue_def)
qed

subsection \<open>C9: the perpendicular distance is total\<close>

text \<open>
  C9.  \<^verbatim>\<open>getPerpendicularDistance\<close> returns a value for every point and every segment:
  its quotient is never taken with the divisor zero, because a segment of length zero
  is answered before the division, with the distance from the point to the segment's
  start.
\<close>

theorem perpendicular_distance_total:
  "(\<exists>d. getPerpendicularDistance point lineStart lineEnd = Some d)
   \<and> getPerpendicularDistance point lineStart lineStart
       = Some (sqrt ((fst point - fst lineStart) * (fst point - fst lineStart)
                   + (snd point - snd lineStart) * (snd point - snd lineStart)))"
proof
  from getPerpendicularDistance_Some[of point lineStart lineEnd]
  show "\<exists>d. getPerpendicularDistance point lineStart lineEnd = Some d" by blast
next
  show "getPerpendicularDistance point lineStart lineStart
       = Some (sqrt ((fst point - fst lineStart) * (fst point - fst lineStart)
                   + (snd point - snd lineStart) * (snd point - snd lineStart)))"
    by (simp add: getPerpendicularDistance_def Let_def)
qed

theorem perpendicular_distance_total_witness:
  "getPerpendicularDistance (3, 4) (0, 0) (0, 0) = Some 5"
proof -
  have "sqrt (3 * 3 + 4 * 4) = sqrt (5\<^sup>2)" by simp
  also have "\<dots> = 5" by simp
  finally have s: "sqrt (3 * 3 + 4 * 4) = 5" .
  from perpendicular_distance_total[of "(3, 4)" "(0, 0)" "(0, 0)"] s
  show ?thesis by simp
qed

subsection \<open>C10: snapping adds one point\<close>

text \<open>
  C10.  For a polygon of at least 2 points, \<^verbatim>\<open>straightenNearOrthogonalLines\<close> (both
  variants) returns exactly one point more than it was given: the result starts with
  the input's first point, and ends with the point pushed for the wrap-around segment
  from the last point back to the first.
\<close>

theorem straighten_adds_one_point:
  assumes "2 \<le> length contour"
  shows "length (straightenNearOrthogonalLines contour) = length contour + 1
       \<and> hd (straightenNearOrthogonalLines contour) = hd contour
       \<and> last (straightenNearOrthogonalLines contour)
           = straightenedNext (3 / 100) (last contour) (hd contour)
       \<and> length (straightenNearOrthogonalLines_v3 contour) = length contour + 1
       \<and> hd (straightenNearOrthogonalLines_v3 contour) = hd contour
       \<and> last (straightenNearOrthogonalLines_v3 contour)
           = straightenedNext (5 / 100) (last contour) (hd contour)"
proof -
  have ne: "contour \<noteq> []"
  proof
    assume "contour = []"
    with assms show False by simp
  qed
  have h: "hd (straightenWith tol contour) = hd contour" for tol
    using assms by (simp add: straightenWith_def hd_conv_nth[OF ne])
  show ?thesis
    unfolding straightenNearOrthogonalLines_def straightenNearOrthogonalLines_v3_def
    using length_straightenWith[OF assms] last_straightenWith[OF assms] h by simp
qed

theorem straighten_adds_one_point_witness:
  "length (straightenNearOrthogonalLines [(0, 0), (4, 0), (4, 3)]) = 4
   \<and> length (straightenNearOrthogonalLines_v3 [(0, 0), (4, 0), (4, 3)]) = 4
   \<and> hd (straightenNearOrthogonalLines [(0, 0), (4, 0), (4, 3)]) = (0, 0)"
  using straighten_adds_one_point[of "[(0, 0), (4, 0), (4, 3)]"]
  by simp

end
